theory Spec2Isabelle
  imports Complex_Main "HOL-Library.Word"
begin

section \<open>The PhantomVault IPC test client (scripts/test-ipc-client.py)\<close>

text \<open>
  The client talks to the vault service over a Unix stream socket. Every message is a
  frame: a 4-byte length header (\<open>struct.pack('I', n)\<close>, native byte order) followed by
  the UTF-8 bytes of a JSON object. The class \<open>PhantomVaultIPCClient\<close> has the methods
  \<open>connect\<close>, \<open>disconnect\<close>, \<open>send_message\<close> and \<open>receive_message\<close>; they are embedded
  below with explicit state passing. What lives outside the script (the socket, the
  clock, standard output, \<open>json.loads\<close>) is made explicit as data.
\<close>

subsection \<open>Bytes, Python strings, exceptions\<close>

type_synonym byte = "8 word"

text \<open>A Python \<open>str\<close> is a sequence of Unicode code points.\<close>

type_synonym pystr = "nat list"

definition ascii :: "string \<Rightarrow> pystr" where
  "ascii cs = map of_char cs"

text \<open>
  The exceptions that can be raised inside the two \<open>try\<close> blocks. All of them are
  subclasses of \<open>Exception\<close>, which is what both \<open>except\<close> clauses catch.
  \<open>ValueError\<close> stands for its subclasses \<open>UnicodeEncodeError\<close>,
  \<open>UnicodeDecodeError\<close> and \<open>json.JSONDecodeError\<close> too; \<open>RecursionError\<close> is what
  \<open>json.loads\<close> raises on a text nested too deeply.
\<close>

datatype exn = OSError | StructError | ValueError | KeyError | TypeError | RecursionError

subsection \<open>The length header: \<open>struct.pack('I', n)\<close> and \<open>struct.unpack('I', b)\<close>\<close>

text \<open>
  Format \<open>'I'\<close> is a native unsigned int: 4 bytes, in the byte order of the host, which
  is a parameter of the model. Packing a number outside \<open>0 .. 2^32 - 1\<close> raises
  \<open>struct.error\<close>; unpacking a buffer that is not 4 bytes long raises it too.
\<close>

datatype byteorder = Little | Big

definition le_bytes :: "nat \<Rightarrow> byte list" where
  "le_bytes n = [of_nat n, of_nat (n div 256), of_nat (n div 65536), of_nat (n div 16777216)]"

definition pack_I :: "byteorder \<Rightarrow> nat \<Rightarrow> exn + byte list" where
  "pack_I bo n =
     (if n < 4294967296
      then Inr (case bo of Little \<Rightarrow> le_bytes n | Big \<Rightarrow> rev (le_bytes n))
      else Inl StructError)"

fun le_value :: "byte list \<Rightarrow> nat" where
  "le_value [] = 0"
| "le_value (b # bs) = unat b + 256 * le_value bs"

definition unpack_I :: "byteorder \<Rightarrow> byte list \<Rightarrow> exn + nat" where
  "unpack_I bo bs =
     (if length bs = 4
      then Inr (case bo of Little \<Rightarrow> le_value bs | Big \<Rightarrow> le_value (rev bs))
      else Inl StructError)"

subsection \<open>The socket\<close>

text \<open>
  A connected stream socket, seen from the client. \<open>inbound\<close> holds the bytes the
  peer sends before it closes its end and that the client has not received yet;
  \<open>sent\<close> holds the bytes the kernel has accepted from the client so far.
  How many bytes one call transfers is the kernel's choice: \<open>recv_plan\<close> and
  \<open>send_plan\<close> list that choice for the calls to come. \<open>Short k\<close> lets the call transfer
  at most \<open>k + 1\<close> bytes (a blocking call transfers at least one byte when there is one),
  \<open>Raise\<close> makes the call raise \<open>OSError\<close>, and a call beyond the end of the plan
  transfers all it can. A socket that is not \<open>connected\<close> (never connected, or
  closed) raises on every call. A peer that neither sends nor closes blocks \<open>recv\<close>
  for ever; that is outside this model.
\<close>

datatype io = Short nat | Raise

record sock =
  connected :: bool
  inbound :: "byte list"
  recv_plan :: "io list"
  sent :: "byte list"
  send_plan :: "io list"

text \<open>\<open>socket.recv(n)\<close>: up to \<open>n\<close> bytes; the empty result means the peer has closed.\<close>

definition recv :: "nat \<Rightarrow> sock \<Rightarrow> (exn + byte list) \<times> sock" where
  "recv n s =
     (if \<not> connected s then (Inl OSError, s)
      else case recv_plan s of
        [] \<Rightarrow> (Inr (take n (inbound s)), s\<lparr>inbound := drop n (inbound s)\<rparr>)
      | Raise # p \<Rightarrow> (Inl OSError, s\<lparr>recv_plan := p\<rparr>)
      | Short k # p \<Rightarrow>
          (Inr (take (min n (Suc k)) (inbound s)),
           s\<lparr>inbound := drop (min n (Suc k)) (inbound s), recv_plan := p\<rparr>))"

text \<open>\<open>socket.send(data)\<close>: returns how many bytes were accepted, possibly fewer than given.\<close>

definition send :: "byte list \<Rightarrow> sock \<Rightarrow> (exn + nat) \<times> sock" where
  "send data s =
     (if \<not> connected s then (Inl OSError, s)
      else case send_plan s of
        [] \<Rightarrow> (Inr (length data), s\<lparr>sent := sent s @ data\<rparr>)
      | Raise # p \<Rightarrow> (Inl OSError, s\<lparr>send_plan := p\<rparr>)
      | Short k # p \<Rightarrow>
          (Inr (min (length data) (Suc k)),
           s\<lparr>sent := sent s @ take (Suc k) data, send_plan := p\<rparr>))"

definition close :: "sock \<Rightarrow> sock" where
  "close s = s\<lparr>connected := False\<rparr>"

subsection \<open>Reading one frame (\<open>receive_message\<close>, lines 82 to 98)\<close>

text \<open>
  The \<open>while\<close> loop of lines 90 to 94: ask for the bytes still missing, stop at an empty
  chunk, append otherwise. Each round either stops or makes \<open>message_data\<close> longer, so
  the distance to \<open>message_length\<close> is a measure.
\<close>

function recv_body :: "nat \<Rightarrow> byte list \<Rightarrow> sock \<Rightarrow> (exn + byte list) \<times> sock" where
  "recv_body message_length message_data s =
     (if length message_data < message_length
      then (case recv (message_length - length message_data) s of
              (Inl e, s') \<Rightarrow> (Inl e, s')
            | (Inr chunk, s') \<Rightarrow>
                if chunk = [] then (Inr message_data, s')
                else recv_body message_length (message_data @ chunk) s')
      else (Inr message_data, s))"
  by pat_completeness auto
termination
  by (relation "measure (\<lambda>(n, acc, s). n - length acc)")
     (auto simp flip: length_greater_0_conv)

declare recv_body.simps [simp del]

text \<open>
  The four ways the framing part of \<open>receive_message\<close> ends: an exception (caught by
  the \<open>except\<close> clause of line 106), a header read that did not return 4 bytes (line 84),
  a body shorter than announced (lines 96 to 98), or a complete body.
\<close>

datatype frame_result =
    Raised exn
  | ShortHeader
  | Incomplete nat nat
  | Frame "byte list"

definition recv_frame :: "byteorder \<Rightarrow> sock \<Rightarrow> frame_result \<times> sock" where
  "recv_frame bo s =
     (case recv 4 s of
        (Inl e, s1) \<Rightarrow> (Raised e, s1)
      | (Inr length_data, s1) \<Rightarrow>
          if length length_data \<noteq> 4 then (ShortHeader, s1)
          else (case unpack_I bo length_data of
                  Inl e \<Rightarrow> (Raised e, s1)
                | Inr message_length \<Rightarrow>
                    (case recv_body message_length [] s1 of
                       (Inl e, s2) \<Rightarrow> (Raised e, s2)
                     | (Inr message_data, s2) \<Rightarrow>
                         if length message_data \<noteq> message_length
                         then (Incomplete (length message_data) message_length, s2)
                         else (Frame message_data, s2))))"

subsection \<open>Writing one frame (\<open>send_message\<close>, lines 60 to 64)\<close>

text \<open>
  The header is packed from \<open>len(message_bytes)\<close> and handed to \<open>send\<close>, then the
  body is handed to \<open>send\<close>. Both return values are dropped: nothing is sent again.
\<close>

definition send_frame :: "byteorder \<Rightarrow> byte list \<Rightarrow> sock \<Rightarrow> (exn + unit) \<times> sock" where
  "send_frame bo message_bytes s =
     (case pack_I bo (length message_bytes) of
        Inl e \<Rightarrow> (Inl e, s)
      | Inr length_hdr \<Rightarrow>
          (case send length_hdr s of
             (Inl e, s1) \<Rightarrow> (Inl e, s1)
           | (Inr _, s1) \<Rightarrow>
               (case send message_bytes s1 of
                  (Inl e, s2) \<Rightarrow> (Inl e, s2)
                | (Inr _, s2) \<Rightarrow> (Inr (), s2))))"

subsection \<open>\<open>str(n)\<close>, \<open>json.dumps\<close> and \<open>str.encode('utf-8')\<close>\<close>

text \<open>Decimal digits of a number, as the f-strings of lines 18, 21 and 50 print it.\<close>

function digits :: "nat \<Rightarrow> pystr" where
  "digits n = (if n < 10 then [48 + n] else digits (n div 10) @ [48 + n mod 10])"
  by pat_completeness auto
termination
  by (relation "measure id") auto

declare digits.simps [simp del]

definition str_int :: "int \<Rightarrow> pystr" where
  "str_int i = (if i < 0 then 45 # digits (nat (- i)) else digits (nat i))"

text \<open>
  \<open>json.dumps\<close> is called with its defaults, so \<open>ensure_ascii\<close> is on: inside a string
  literal the quote and the backslash are escaped, the control characters have short
  escapes or \<open>\\u00XX\<close>, every other code point outside \<open>' ' .. '~'\<close> becomes
  \<open>\\uXXXX\<close>, and a code point beyond the basic plane becomes a surrogate pair
  (\<open>0xd800 | (v >> 10) & 0x3ff\<close> and \<open>0xdc00 | v & 0x3ff\<close>, written with \<open>+\<close> below:
  the low ten bits of both constants are zero).
\<close>

definition hexdigit :: "nat \<Rightarrow> nat" where
  "hexdigit d = (if d < 10 then 48 + d else 87 + d)"

definition hex4 :: "nat \<Rightarrow> pystr" where
  "hex4 n = [hexdigit (n div 4096 mod 16), hexdigit (n div 256 mod 16),
             hexdigit (n div 16 mod 16), hexdigit (n mod 16)]"

definition escape_char :: "nat \<Rightarrow> pystr" where
  "escape_char c =
     (if c = 34 then [92, 34]
      else if c = 92 then [92, 92]
      else if c = 10 then [92, 110]
      else if c = 13 then [92, 114]
      else if c = 9 then [92, 116]
      else if c = 8 then [92, 98]
      else if c = 12 then [92, 102]
      else if 32 \<le> c \<and> c \<le> 126 then [c]
      else if c < 65536 then [92, 117] @ hex4 c
      else [92, 117] @ hex4 (55296 + (c - 65536) div 1024 mod 1024)
         @ [92, 117] @ hex4 (56320 + (c - 65536) mod 1024))"

definition dumps_str :: "pystr \<Rightarrow> pystr" where
  "dumps_str s = [34] @ concat (map escape_char s) @ [34]"

text \<open>The dictionary of lines 47 to 52: four keys, in this order, all values strings.\<close>

record message =
  msg_type :: pystr
  msg_payload :: pystr
  msg_request_id :: pystr
  msg_client_id :: pystr

definition json_dumps :: "message \<Rightarrow> pystr" where
  "json_dumps m =
     ascii ''{'' @ dumps_str (ascii ''type'') @ ascii '': '' @ dumps_str (msg_type m)
     @ ascii '', '' @ dumps_str (ascii ''payload'') @ ascii '': '' @ dumps_str (msg_payload m)
     @ ascii '', '' @ dumps_str (ascii ''request_id'') @ ascii '': ''
     @ dumps_str (msg_request_id m)
     @ ascii '', '' @ dumps_str (ascii ''client_id'') @ ascii '': ''
     @ dumps_str (msg_client_id m) @ ascii ''}''"

text \<open>
  UTF-8: one to four bytes for a code point; a surrogate (\<open>0xD800 .. 0xDFFF\<close>) cannot
  be encoded and raises \<open>UnicodeEncodeError\<close>. Python has no code point from
  \<open>0x110000\<close> on; the model raises there too.
\<close>

definition utf8_char :: "nat \<Rightarrow> exn + byte list" where
  "utf8_char c =
     (if c < 128 then Inr [of_nat c]
      else if c < 2048 then Inr [of_nat (192 + c div 64), of_nat (128 + c mod 64)]
      else if 55296 \<le> c \<and> c \<le> 57343 then Inl ValueError
      else if c < 65536
        then Inr [of_nat (224 + c div 4096), of_nat (128 + c div 64 mod 64),
                  of_nat (128 + c mod 64)]
      else if c < 1114112
        then Inr [of_nat (240 + c div 262144), of_nat (128 + c div 4096 mod 64),
                  of_nat (128 + c div 64 mod 64), of_nat (128 + c mod 64)]
      else Inl ValueError)"

fun encode_utf8 :: "pystr \<Rightarrow> exn + byte list" where
  "encode_utf8 [] = Inr []"
| "encode_utf8 (c # cs) =
     (case utf8_char c of
        Inl e \<Rightarrow> Inl e
      | Inr bs \<Rightarrow> (case encode_utf8 cs of Inl e \<Rightarrow> Inl e | Inr rest \<Rightarrow> Inr (bs @ rest)))"

subsection \<open>JSON values read from the peer\<close>

text \<open>
  \<open>json.loads\<close> gives \<open>None\<close>, booleans, integers, floats (it accepts \<open>NaN\<close>,
  \<open>Infinity\<close> and \<open>-Infinity\<close> too), strings, lists and dictionaries.
\<close>

datatype pyfloat = Finite real | Infinity | NegInfinity | NaN

datatype json =
    JNull
  | JBool bool
  | JInt int
  | JFloat pyfloat
  | JStr pystr
  | JArr "json list"
  | JObj "(pystr \<times> json) list"

text \<open>\<open>message[key]\<close> with a string key: only a dictionary can be indexed so.\<close>

fun getitem :: "json \<Rightarrow> pystr \<Rightarrow> exn + json" where
  "getitem (JObj kvs) k = (case map_of kvs k of None \<Rightarrow> Inl KeyError | Some v \<Rightarrow> Inr v)"
| "getitem _ k = Inl TypeError"

text \<open>
  \<open>value[:50]\<close>: strings and lists can be sliced. Slicing a dictionary raises
  (\<open>TypeError\<close> up to Python 3.11, \<open>KeyError\<close> from 3.12 on); anything else raises
  \<open>TypeError\<close>.
\<close>

fun slice50 :: "json \<Rightarrow> exn + json" where
  "slice50 (JStr s) = Inr (JStr (take 50 s))"
| "slice50 (JArr xs) = Inr (JArr (take 50 xs))"
| "slice50 _ = Inl TypeError"

fun len :: "json \<Rightarrow> exn + nat" where
  "len (JStr s) = Inr (length s)"
| "len (JArr xs) = Inr (length xs)"
| "len (JObj kvs) = Inr (length (remdups (map fst kvs)))"
| "len _ = Inl TypeError"

subsection \<open>The client object and its surroundings\<close>

record client =
  socket_path :: pystr
  socket :: "sock option"
  client_id :: pystr

text \<open>What the script prints, one value for each \<open>print\<close> call of the class.\<close>

datatype report =
    Connected pystr
  | ConnectFailed exn
  | Disconnected
  | NotConnected
  | Sent pystr pystr bool
  | SendFailed exn
  | IncompleteMessage nat nat
  | Received json json bool
  | ReceiveFailed exn

text \<open>
  The world around the object: standard output, and the sockets that \<open>close()\<close> was
  called on (the object drops its reference to them).
\<close>

record world =
  stdout :: "report list"
  closed_sockets :: "sock list"

definition print :: "report \<Rightarrow> world \<Rightarrow> world" where
  "print r w = w\<lparr>stdout := stdout w @ [r]\<rparr>"

text \<open>
  Standard output is a UTF-8 text stream with strict error handling (the script prints
  emoji, so it needs a Unicode stream): \<open>print\<close> encodes the whole line before it
  writes any of it, and a line that holds a lone surrogate raises \<open>UnicodeEncodeError\<close>.
  Three lines carry text that the caller or the peer chose: the path of line 28, the
  type and the first 50 characters of the payload of line 66, and the same of line 102.
  There a string is printed as it is; any other JSON value is printed through \<open>str\<close>,
  which escapes what cannot be encoded. The remaining lines (the messages of exceptions
  among them) are ASCII apart from their emoji and always print.
\<close>

definition encodable :: "pystr \<Rightarrow> bool" where
  "encodable s = (case encode_utf8 s of Inl e \<Rightarrow> False | Inr bs \<Rightarrow> True)"

fun encodable_json :: "json \<Rightarrow> bool" where
  "encodable_json (JStr s) = encodable s"
| "encodable_json _ = True"

fun printable :: "report \<Rightarrow> bool" where
  "printable (Connected path) = encodable path"
| "printable (Sent message_type payload dots) = (encodable message_type \<and> encodable payload)"
| "printable (Received t p dots) = (encodable_json t \<and> encodable_json p)"
| "printable _ = True"

definition print_line :: "report \<Rightarrow> world \<Rightarrow> exn + world" where
  "print_line r w = (if printable r then Inr (print r w) else Inl ValueError)"

text \<open>
  The host: the byte order of \<open>struct\<close>'s native format, and
  \<open>json.loads(data.decode('utf-8'))\<close> as a function from the body bytes to the parsed
  value or the exception raised (\<open>UnicodeDecodeError\<close>, \<open>JSONDecodeError\<close>).
\<close>

record host =
  byte_order :: byteorder
  json_loads :: "byte list \<Rightarrow> exn + json"

subsection \<open>The methods of \<open>PhantomVaultIPCClient\<close>\<close>

text \<open>
  \<open>__init__\<close> (lines 16 to 21); \<open>uid\<close> is \<open>os.getuid()\<close> and \<open>now_s\<close> is
  \<open>int(time.time())\<close>.
\<close>

definition init :: "pystr option \<Rightarrow> nat \<Rightarrow> int \<Rightarrow> client" where
  "init path uid now_s =
     \<lparr>socket_path = (case path of
                       None \<Rightarrow> ascii ''/tmp/phantom-vault-'' @ digits uid @ ascii ''.sock''
                     | Some p \<Rightarrow> p),
      socket = None,
      client_id = ascii ''test_client_'' @ str_int now_s\<rparr>"

text \<open>
  \<open>connect\<close> (lines 23 to 32). \<open>fresh\<close> is what \<open>socket.socket(...)\<close> gives: nothing
  when it raises, else a new socket, whose \<open>connected\<close> flag tells whether
  \<open>connect(self.socket_path)\<close> will succeed. The attribute is assigned before
  \<open>connect\<close> is called, so a refused connection leaves an unconnected socket behind.
  The line of line 28 is printed inside the \<open>try\<close>: when it cannot be printed, the
  method reports a failure although the socket is connected.
\<close>

definition connect :: "sock option \<Rightarrow> client \<Rightarrow> world \<Rightarrow> bool \<times> client \<times> world" where
  "connect fresh c w =
     (case fresh of
        None \<Rightarrow> (False, c, print (ConnectFailed OSError) w)
      | Some s \<Rightarrow>
          if connected s
          then (case print_line (Connected (socket_path c)) w of
                  Inl e \<Rightarrow> (False, c\<lparr>socket := Some s\<rparr>, print (ConnectFailed e) w)
                | Inr w' \<Rightarrow> (True, c\<lparr>socket := Some s\<rparr>, w'))
          else (False, c\<lparr>socket := Some s\<rparr>, print (ConnectFailed OSError) w))"

text \<open>\<open>disconnect\<close> (lines 34 to 39). A socket object is always truthy.\<close>

definition disconnect :: "client \<Rightarrow> world \<Rightarrow> client \<times> world" where
  "disconnect c w =
     (case socket c of
        None \<Rightarrow> (c, w)
      | Some s \<Rightarrow>
          (c\<lparr>socket := None\<rparr>,
           print Disconnected (w\<lparr>closed_sockets := closed_sockets w @ [close s]\<rparr>)))"

text \<open>
  \<open>receive_message\<close> (lines 75 to 108). After the frame is read, the body is parsed and
  line 102 prints \<open>message['type']\<close>, \<open>message['payload'][:50]\<close> and whether
  \<open>len(message['payload']) > 50\<close>, in this order; each of them can raise, and so can
  \<open>print\<close> once the line is built. Every exception ends in the \<open>except\<close> clause of
  line 106.
\<close>

definition describe :: "json \<Rightarrow> exn + report" where
  "describe msg =
     (case getitem msg (ascii ''type'') of
        Inl e \<Rightarrow> Inl e
      | Inr t \<Rightarrow>
          (case getitem msg (ascii ''payload'') of
             Inl e \<Rightarrow> Inl e
           | Inr p \<Rightarrow>
               (case slice50 p of
                  Inl e \<Rightarrow> Inl e
                | Inr short \<Rightarrow>
                    (case len p of
                       Inl e \<Rightarrow> Inl e
                     | Inr n \<Rightarrow> Inr (Received t short (50 < n))))))"

definition receive_message :: "host \<Rightarrow> client \<Rightarrow> world \<Rightarrow> json option \<times> client \<times> world" where
  "receive_message h c w =
     (case socket c of
        None \<Rightarrow> (None, c, w)
      | Some s \<Rightarrow>
          (case recv_frame (byte_order h) s of
             (Raised e, s') \<Rightarrow> (None, c\<lparr>socket := Some s'\<rparr>, print (ReceiveFailed e) w)
           | (ShortHeader, s') \<Rightarrow> (None, c\<lparr>socket := Some s'\<rparr>, w)
           | (Incomplete got expected, s') \<Rightarrow>
               (None, c\<lparr>socket := Some s'\<rparr>, print (IncompleteMessage got expected) w)
           | (Frame message_data, s') \<Rightarrow>
               (case json_loads h message_data of
                  Inl e \<Rightarrow> (None, c\<lparr>socket := Some s'\<rparr>, print (ReceiveFailed e) w)
                | Inr msg \<Rightarrow>
                    (case describe msg of
                       Inl e \<Rightarrow> (None, c\<lparr>socket := Some s'\<rparr>, print (ReceiveFailed e) w)
                     | Inr line \<Rightarrow>
                         (case print_line line w of
                            Inl e \<Rightarrow>
                              (None, c\<lparr>socket := Some s'\<rparr>, print (ReceiveFailed e) w)
                          | Inr w' \<Rightarrow> (Some msg, c\<lparr>socket := Some s'\<rparr>, w'))))))"

text \<open>
  \<open>send_message\<close> (lines 41 to 73). \<open>now_ms\<close> is \<open>int(time.time() * 1000)\<close>, read at
  line 50 when \<open>request_id\<close> is empty (the default, and falsy). The arguments are
  strings, as the defaults of the signature are. The line of line 66 is printed inside
  the \<open>try\<close>, after both writes and before the read: when \<open>print\<close> raises, the
  \<open>except\<close> clause of line 71 reports it and the response is not read.
\<close>

definition make_message :: "int \<Rightarrow> pystr \<Rightarrow> pystr \<Rightarrow> pystr \<Rightarrow> client \<Rightarrow> message" where
  "make_message now_ms message_type payload request_id c =
     \<lparr>msg_type = message_type,
      msg_payload = payload,
      msg_request_id = (if request_id = [] then ascii ''req_'' @ str_int now_ms else request_id),
      msg_client_id = client_id c\<rparr>"

definition send_message ::
  "host \<Rightarrow> int \<Rightarrow> pystr \<Rightarrow> pystr \<Rightarrow> pystr \<Rightarrow> client \<Rightarrow> world \<Rightarrow> json option \<times> client \<times> world"
where
  "send_message h now_ms message_type payload request_id c w =
     (case socket c of
        None \<Rightarrow> (None, c, print NotConnected w)
      | Some s \<Rightarrow>
          (case encode_utf8 (json_dumps (make_message now_ms message_type payload request_id c)) of
             Inl e \<Rightarrow> (None, c, print (SendFailed e) w)
           | Inr message_bytes \<Rightarrow>
               (case send_frame (byte_order h) message_bytes s of
                  (Inl e, s') \<Rightarrow> (None, c\<lparr>socket := Some s'\<rparr>, print (SendFailed e) w)
                | (Inr _, s') \<Rightarrow>
                    (case print_line
                            (Sent message_type (take 50 payload) (50 < length payload)) w of
                       Inl e \<Rightarrow> (None, c\<lparr>socket := Some s'\<rparr>, print (SendFailed e) w)
                     | Inr w' \<Rightarrow> receive_message h (c\<lparr>socket := Some s'\<rparr>) w'))))"

subsection \<open>Conditions on the surroundings\<close>

text \<open>
  The theorems below speak about sockets on which no call raises and about calls that
  the kernel does not cut short. \<open>quiet s\<close>: the socket is connected and no read to
  come raises. \<open>allows n p\<close>: the next call under plan \<open>p\<close> transfers \<open>n\<close> bytes
  when it is asked to.
\<close>

definition quiet :: "sock \<Rightarrow> bool" where
  "quiet s \<longleftrightarrow> connected s \<and> Raise \<notin> set (recv_plan s)"

fun allows :: "nat \<Rightarrow> io list \<Rightarrow> bool" where
  "allows n [] = True"
| "allows n (Short k # p) = (n \<le> Suc k)"
| "allows n (Raise # p) = False"

text \<open>\<open>accepted_by p data\<close>: the part of \<open>data\<close> that one \<open>send\<close> call writes under plan \<open>p\<close>.\<close>

fun accepted_by :: "io list \<Rightarrow> byte list \<Rightarrow> byte list" where
  "accepted_by [] data = data"
| "accepted_by (Short k # p) data = take (Suc k) data"
| "accepted_by (Raise # p) data = []"

subsection \<open>Sample data\<close>

text \<open>A session on user 1000's socket path, an idle connected socket, an empty world.\<close>

definition demo_sock :: sock where
  "demo_sock = \<lparr>connected = True, inbound = [], recv_plan = [], sent = [], send_plan = []\<rparr>"

definition demo_client :: client where
  "demo_client = \<lparr>socket_path = ascii ''/tmp/phantom-vault-1000.sock'', socket = None,
                   client_id = ascii ''test_client_1700000000''\<rparr>"

definition demo_world :: world where
  "demo_world = \<lparr>stdout = [], closed_sockets = []\<rparr>"

definition demo_host :: host where
  "demo_host = \<lparr>byte_order = Little, json_loads = (\<lambda>bs. Inl ValueError)\<rparr>"

text \<open>The lines that report a failure, among those the class prints.\<close>

fun is_failure :: "report \<Rightarrow> bool" where
  "is_failure NotConnected = True"
| "is_failure (SendFailed e) = True"
| "is_failure (IncompleteMessage got expected) = True"
| "is_failure (ReceiveFailed e) = True"
| "is_failure (ConnectFailed e) = True"
| "is_failure _ = False"

text \<open>
  A reply of the service and a host whose \<open>json.loads\<close> parses the text of that reply
  (and nothing else); a socket that holds the frame of the reply; a session on it.
\<close>

definition pong_reply :: message where
  "pong_reply = \<lparr>msg_type = ascii ''PONG'', msg_payload = ascii ''pong'',
                  msg_request_id = ascii ''req_42'', msg_client_id = ascii ''service''\<rparr>"

definition to_json :: "message \<Rightarrow> json" where
  "to_json m = JObj [(ascii ''type'', JStr (msg_type m)), (ascii ''payload'', JStr (msg_payload m)),
                     (ascii ''request_id'', JStr (msg_request_id m)),
                     (ascii ''client_id'', JStr (msg_client_id m))]"

definition pong_host :: host where
  "pong_host = \<lparr>byte_order = Little,
                 json_loads = (\<lambda>bs. if bs = map of_nat (json_dumps pong_reply)
                                      then Inr (to_json pong_reply) else Inl ValueError)\<rparr>"

definition pong_sock :: sock where
  "pong_sock = \<lparr>connected = True,
                 inbound = le_bytes 83 @ map of_nat (json_dumps pong_reply),
                 recv_plan = [], sent = [], send_plan = []\<rparr>"

definition ping_client :: client where
  "ping_client = demo_client\<lparr>socket := Some pong_sock\<rparr>"

section \<open>Properties\<close>

subsection \<open>The length header\<close>

lemma unat_byte_of_nat: "unat (of_nat k :: byte) = k mod 256"
  by (simp add: unat_of_nat)

lemma le_value_le_bytes:
  assumes "n < 4294967296"
  shows "le_value (le_bytes n) = n"
proof -
  define a where "a = n div 256"
  define b where "b = a div 256"
  define c where "c = b div 256"
  have b: "n div 65536 = b"
    unfolding b_def a_def by (simp add: div_mult2_eq)
  have c: "n div 16777216 = c"
    unfolding c_def b_def a_def by (simp add: div_mult2_eq)
  have "c < 256"
    using assms unfolding c [symmetric] by (simp add: less_mult_imp_div_less)
  then have c_mod: "c mod 256 = c" by simp
  have "le_value (le_bytes n) = n mod 256 + 256 * (a mod 256 + 256 * (b mod 256 + 256 * c))"
    by (simp add: le_bytes_def unat_byte_of_nat b c c_mod a_def [symmetric])
  also have "b mod 256 + 256 * c = b"
    unfolding c_def by simp
  also have "a mod 256 + 256 * b = a"
    unfolding b_def by simp
  also have "n mod 256 + 256 * a = n"
    unfolding a_def by simp
  finally show ?thesis .
qed

lemma length_le_bytes: "length (le_bytes n) = 4"
  by (simp add: le_bytes_def)

lemma pack_unpack:
  "n < 4294967296 \<Longrightarrow> \<exists>hdr. pack_I bo n = Inr hdr \<and> length hdr = 4 \<and> unpack_I bo hdr = Inr n"
  by (cases bo) (simp_all add: pack_I_def unpack_I_def length_le_bytes le_value_le_bytes)

subsection \<open>Reading from a quiet socket\<close>

lemma recv_quiet:
  assumes "quiet s" and "0 < n"
  shows "\<exists>m. 0 < m \<and> m \<le> n \<and> fst (recv n s) = Inr (take m (inbound s))
           \<and> inbound (snd (recv n s)) = drop m (inbound s)
           \<and> quiet (snd (recv n s))"
proof (cases "recv_plan s")
  case Nil
  with assms show ?thesis
    by (intro exI [of _ n]) (simp add: recv_def quiet_def)
next
  case (Cons e p)
  with assms obtain k where e: "e = Short k"
    by (cases e) (auto simp: quiet_def)
  with Cons assms show ?thesis
    by (intro exI [of _ "min n (Suc k)"]) (simp add: recv_def quiet_def)
qed

lemma take_take_drop:
  "m \<le> n \<Longrightarrow> take m xs @ take (n - length (take m xs)) (drop m xs) = take n xs"
proof (cases "m \<le> length xs")
  case True
  assume "m \<le> n"
  then have "take n xs = take (m + (n - m)) xs" by simp
  also have "\<dots> = take m xs @ take (n - m) (drop m xs)" by (rule take_add)
  finally show ?thesis using True by (simp add: min_absorb2)
next
  case False
  assume "m \<le> n"
  with False show ?thesis by simp
qed

lemma recv_body_quiet:
  "quiet s \<Longrightarrow>
     fst (recv_body n acc s) = Inr (acc @ take (n - length acc) (inbound s))
     \<and> inbound (snd (recv_body n acc s)) = drop (n - length acc) (inbound s)
     \<and> quiet (snd (recv_body n acc s))"
proof (induction n acc s rule: recv_body.induct)
  case (1 n acc s)
  show ?case
  proof (cases "length acc < n")
    case False
    with "1.prems" show ?thesis by (simp add: recv_body.simps [of n acc s])
  next
    case True
    then have pos: "0 < n - length acc" by simp
    from recv_quiet [OF "1.prems" pos] obtain m where
      m: "0 < m" "m \<le> n - length acc"
      and r: "fst (recv (n - length acc) s) = Inr (take m (inbound s))"
      and i: "inbound (snd (recv (n - length acc) s)) = drop m (inbound s)"
      and q: "quiet (snd (recv (n - length acc) s))"
      by blast
    obtain s' where rs: "recv (n - length acc) s = (Inr (take m (inbound s)), s')"
      using r by (cases "recv (n - length acc) s") simp
    with i q have i': "inbound s' = drop m (inbound s)" and q': "quiet s'" by simp_all
    show ?thesis
    proof (cases "take m (inbound s) = []")
      case True
      with m have "inbound s = []" by simp
      with True \<open>length acc < n\<close> rs i' q' show ?thesis
        by (simp add: recv_body.simps [of n acc s])
    next
      case False
      have IH: "fst (recv_body n (acc @ take m (inbound s)) s')
           = Inr ((acc @ take m (inbound s)) @ take (n - length (acc @ take m (inbound s))) (inbound s'))
         \<and> inbound (snd (recv_body n (acc @ take m (inbound s)) s'))
           = drop (n - length (acc @ take m (inbound s))) (inbound s')
         \<and> quiet (snd (recv_body n (acc @ take m (inbound s)) s'))"
        using "1.IH" [OF True rs [symmetric] refl False q'] .
      have step: "recv_body n acc s = recv_body n (acc @ take m (inbound s)) s'"
        using True rs False by (simp add: recv_body.simps [of n acc s])
      have t: "take m (inbound s) @ take (n - length acc - length (take m (inbound s))) (drop m (inbound s))
               = take (n - length acc) (inbound s)"
        using take_take_drop [OF m(2)] .
      have d: "drop (n - length acc - length (take m (inbound s))) (drop m (inbound s))
               = drop (n - length acc) (inbound s)"
      proof (cases "m \<le> length (inbound s)")
        case True
        with m show ?thesis by (simp add: min_absorb2)
      next
        case False
        with m show ?thesis by simp
      qed
      have l: "n - length (acc @ take m (inbound s)) = n - length acc - length (take m (inbound s))"
        by simp
      show ?thesis
        unfolding step using IH unfolding l i' t d
        by (simp only: append_assoc t) 
    qed
  qed
qed

lemma recv_allows:
  assumes "quiet s" and "allows n (recv_plan s)"
  shows "fst (recv n s) = Inr (take n (inbound s))
         \<and> inbound (snd (recv n s)) = drop n (inbound s)
         \<and> quiet (snd (recv n s))"
proof (cases "recv_plan s")
  case Nil
  with assms show ?thesis by (simp add: recv_def quiet_def)
next
  case (Cons e p)
  with assms obtain k where "e = Short k" "n \<le> Suc k"
    by (cases e) auto
  with Cons assms show ?thesis
    by (simp add: recv_def quiet_def min_absorb1)
qed

lemma send_allows:
  assumes "connected s" and "allows (length data) (send_plan s)"
  shows "fst (send data s) = Inr (length data)
         \<and> snd (send data s) = s\<lparr>sent := sent s @ data, send_plan := tl (send_plan s)\<rparr>"
proof (cases "send_plan s")
  case Nil
  with assms show ?thesis by (simp add: send_def)
next
  case (Cons e p)
  with assms obtain k where "e = Short k" "length data \<le> Suc k"
    by (cases e) auto
  with Cons assms show ?thesis
    by (simp add: send_def min_absorb1)
qed

lemma send_frame_allows:
  assumes "connected s" and "allows 4 (send_plan s)"
    and "allows (length body) (tl (send_plan s))" and "length body < 4294967296"
  shows "\<exists>hdr. pack_I bo (length body) = Inr hdr \<and> length hdr = 4
           \<and> unpack_I bo hdr = Inr (length body)
           \<and> send_frame bo body s
             = (Inr (), s\<lparr>sent := sent s @ hdr @ body, send_plan := tl (tl (send_plan s))\<rparr>)"
proof -
  from pack_unpack [OF assms(4), of bo] obtain hdr where
    h: "pack_I bo (length body) = Inr hdr" "length hdr = 4" "unpack_I bo hdr = Inr (length body)"
    by blast
  let ?s1 = "s\<lparr>sent := sent s @ hdr, send_plan := tl (send_plan s)\<rparr>"
  have s1: "send hdr s = (Inr (length hdr), ?s1)"
    using send_allows [of s hdr] assms(1,2) h(2) by (simp add: prod_eq_iff)
  have s2: "send body ?s1 = (Inr (length body), ?s1\<lparr>sent := sent ?s1 @ body, send_plan := tl (send_plan ?s1)\<rparr>)"
    using send_allows [of ?s1 body] assms(1,3) by (simp add: prod_eq_iff)
  show ?thesis
    using h s1 s2 by (simp add: send_frame_def)
qed

lemma recv_frame_quiet:
  assumes q: "quiet s" and a: "allows 4 (recv_plan s)"
    and i: "inbound s = hdr @ xs" and l: "length hdr = 4"
    and u: "unpack_I bo hdr = Inr n"
  shows "fst (recv_frame bo s)
           = (if length xs < n then Incomplete (length xs) n else Frame (take n xs))
         \<and> inbound (snd (recv_frame bo s)) = drop n xs
         \<and> quiet (snd (recv_frame bo s))"
proof -
  obtain s1 where r: "recv 4 s = (Inr hdr, s1)" and i1: "inbound s1 = xs" and q1: "quiet s1"
    using recv_allows [OF q a] i l by (cases "recv 4 s") simp
  obtain s2 where b: "recv_body n [] s1 = (Inr (take n xs), s2)"
    and i2: "inbound s2 = drop n xs" and q2: "quiet s2"
    using recv_body_quiet [OF q1, of n "[]"] i1 by (cases "recv_body n [] s1") simp
  show ?thesis
    using r b i2 q2 l u by (simp add: recv_frame_def min_def)
qed

subsection \<open>Reading leaves the outgoing side alone, and does not depend on it\<close>

lemma recv_sent: "sent (snd (recv n s)) = sent s"
  by (simp add: recv_def split: list.splits io.splits)

lemma recv_body_sent: "sent (snd (recv_body n acc s)) = sent s"
proof (induction n acc s rule: recv_body.induct)
  case (1 n acc s)
  show ?case
  proof (cases "recv (n - length acc) s")
    case (Pair r s')
    then have "sent s' = sent s" using recv_sent [of "n - length acc" s] by simp
    with Pair "1.IH" show ?thesis
      by (simp add: recv_body.simps [of n acc s] split: sum.splits)
  qed
qed

lemma recv_frame_sent: "sent (snd (recv_frame bo s)) = sent s"
  by (simp add: recv_frame_def case_prod_beta recv_sent recv_body_sent split: sum.splits)

lemma recv_outbound:
  "recv n (s\<lparr>sent := X, send_plan := Y\<rparr>)
     = (fst (recv n s), (snd (recv n s))\<lparr>sent := X, send_plan := Y\<rparr>)"
  by (simp add: recv_def split: list.splits io.splits)

lemma recv_body_outbound:
  "recv_body n acc (s\<lparr>sent := X, send_plan := Y\<rparr>)
     = (fst (recv_body n acc s), (snd (recv_body n acc s))\<lparr>sent := X, send_plan := Y\<rparr>)"
proof (induction n acc s rule: recv_body.induct)
  case (1 n acc s)
  show ?case
  proof (cases "recv (n - length acc) s")
    case (Pair r s')
    with "1.IH" show ?thesis
      by (simp add: recv_body.simps [of n acc s]
            recv_body.simps [of n acc "s\<lparr>sent := X, send_plan := Y\<rparr>"] recv_outbound
          split: sum.splits)
  qed
qed

lemma recv_frame_outbound:
  "fst (recv_frame bo (s\<lparr>sent := X, send_plan := Y\<rparr>)) = fst (recv_frame bo s)"
  by (simp add: recv_frame_def recv_outbound recv_body_outbound case_prod_beta split: sum.splits)

lemma send_shape:
  assumes "send data s = (Inr k, s')"
  shows "\<exists>i. s' = s\<lparr>sent := sent s @ take i data, send_plan := tl (send_plan s)\<rparr>"
proof (cases "send_plan s")
  case Nil
  with assms show ?thesis
    by (intro exI [of _ "length data"]) (auto simp: send_def split: if_splits)
next
  case (Cons e p)
  with assms show ?thesis
    by (cases e) (auto simp: send_def split: if_splits)
qed

lemma send_frame_shape:
  assumes "send_frame bo body s = (Inr u, s')"
  shows "\<exists>hdr i j. pack_I bo (length body) = Inr hdr
           \<and> s' = s\<lparr>sent := sent s @ take i hdr @ take j body,
                     send_plan := tl (tl (send_plan s))\<rparr>"
proof -
  from assms obtain hdr k1 s1 k2 where
    h: "pack_I bo (length body) = Inr hdr" and
    a: "send hdr s = (Inr k1, s1)" and b: "send body s1 = (Inr k2, s')"
    by (auto simp: send_frame_def split: sum.splits prod.splits)
  from send_shape [OF a] obtain i where
    s1: "s1 = s\<lparr>sent := sent s @ take i hdr, send_plan := tl (send_plan s)\<rparr>" by blast
  from send_shape [OF b] obtain j where
    s': "s' = s1\<lparr>sent := sent s1 @ take j body, send_plan := tl (send_plan s1)\<rparr>" by blast
  show ?thesis
    using h s1 s' by auto
qed

subsection \<open>The serialised message is ASCII\<close>

lemma hexdigit_ascii: "d < 16 \<Longrightarrow> hexdigit d < 128"
  by (simp add: hexdigit_def)

lemma hex4_ascii: "x \<in> set (hex4 n) \<Longrightarrow> x < 128"
  by (auto simp: hex4_def intro!: hexdigit_ascii)

lemma escape_char_ascii: "x \<in> set (escape_char c) \<Longrightarrow> x < 128"
proof -
  assume x: "x \<in> set (escape_char c)"
  have h: "\<And>n. list_all (\<lambda>x. x < 128) (hex4 n)"
    by (simp add: list_all_iff hex4_ascii)
  have "list_all (\<lambda>x. x < 128) (escape_char c)"
    unfolding escape_char_def by (simp add: h)
  with x show ?thesis by (simp add: list_all_iff)
qed

lemma dumps_str_ascii: "x \<in> set (dumps_str s) \<Longrightarrow> x < 128"
  by (auto simp: dumps_str_def dest: escape_char_ascii)

lemma ascii_7bit: "list_all (\<lambda>c. of_char c < (128::nat)) cs \<Longrightarrow> x \<in> set (ascii cs) \<Longrightarrow> x < 128"
  by (auto simp: ascii_def list_all_iff)

lemma json_dumps_ascii: "x \<in> set (json_dumps m) \<Longrightarrow> x < 128"
  unfolding json_dumps_def set_append Un_iff
  by (elim disjE; (erule dumps_str_ascii | (erule ascii_7bit [rotated], simp)))

lemma encode_utf8_ascii:
  "(\<And>x. x \<in> set s \<Longrightarrow> x < 128) \<Longrightarrow> encode_utf8 s = Inr (map of_nat s)"
  by (induction s) (simp_all add: utf8_char_def)

lemma encode_json_dumps: "encode_utf8 (json_dumps m) = Inr (map of_nat (json_dumps m))"
  by (rule encode_utf8_ascii) (rule json_dumps_ascii)

subsection \<open>Decimal numerals are injective\<close>

lemma digits_range: "x \<in> set (digits n) \<Longrightarrow> 48 \<le> x \<and> x \<le> 57"
proof (induction n rule: digits.induct)
  case (1 n)
  then show ?case
    by (cases "n < 10") (auto simp: digits.simps [of n])
qed

lemma digits_nonempty: "digits n \<noteq> []"
  by (cases "n < 10") (simp_all add: digits.simps [of n])

lemma undigits_digits: "foldl (\<lambda>a d. 10 * a + (d - 48)) 0 (digits n) = n"
proof (induction n rule: digits.induct)
  case (1 n)
  show ?case
  proof (cases "n < 10")
    case True
    then show ?thesis by (simp add: digits.simps [of n])
  next
    case False
    with "1.IH" show ?thesis by (simp add: digits.simps [of n])
  qed
qed

lemma digits_inj: "digits n = digits m \<Longrightarrow> n = m"
  by (metis undigits_digits)

lemma str_int_inj: "str_int i = str_int j \<Longrightarrow> i = j"
proof -
  assume e: "str_int i = str_int j"
  have no_minus: "\<And>n xs. digits n \<noteq> 45 # xs"
  proof
    fix n xs assume "digits n = 45 # xs"
    then have "45 \<in> set (digits n)" by simp
    from digits_range [OF this] show False by simp
  qed
  show ?thesis
  proof (cases "i < 0")
    case True
    show ?thesis
    proof (cases "j < 0")
      case True
      with \<open>i < 0\<close> e have "digits (nat (- i)) = digits (nat (- j))" by (simp add: str_int_def)
      from digits_inj [OF this] True \<open>i < 0\<close> show ?thesis by simp
    next
      case False
      with \<open>i < 0\<close> e no_minus [of "nat j" "digits (nat (- i))"] show ?thesis
        by (simp add: str_int_def)
    qed
  next
    case False
    show ?thesis
    proof (cases "j < 0")
      case True
      with \<open>\<not> i < 0\<close> e no_minus [of "nat i" "digits (nat (- j))"] show ?thesis
        by (simp add: str_int_def)
    next
      case False
      with \<open>\<not> i < 0\<close> e have "digits (nat i) = digits (nat j)" by (simp add: str_int_def)
      from digits_inj [OF this] False \<open>\<not> i < 0\<close> show ?thesis by simp
    qed
  qed
qed

subsection \<open>Sending\<close>

lemma send_accepts:
  assumes "send data s = (Inr k, s')"
  shows "s' = s\<lparr>sent := sent s @ accepted_by (send_plan s) data, send_plan := tl (send_plan s)\<rparr>"
proof (cases "send_plan s")
  case Nil
  with assms show ?thesis
    by (auto simp: send_def split: if_splits)
next
  case (Cons e p)
  with assms show ?thesis
    by (cases e) (auto simp: send_def split: if_splits)
qed

lemma send_frame_accepts:
  assumes "send_frame bo body s = (Inr u, s')"
  shows "\<exists>hdr. pack_I bo (length body) = Inr hdr
           \<and> s' = s\<lparr>sent := sent s @ accepted_by (send_plan s) hdr
                               @ accepted_by (tl (send_plan s)) body,
                     send_plan := tl (tl (send_plan s))\<rparr>"
proof -
  from assms obtain hdr k1 s1 k2 where
    h: "pack_I bo (length body) = Inr hdr" and
    a: "send hdr s = (Inr k1, s1)" and b: "send body s1 = (Inr k2, s')"
    by (auto simp: send_frame_def split: sum.splits prod.splits)
  note s1 = send_accepts [OF a]
  have p: "send_plan s1 = tl (send_plan s)" and t: "sent s1 = sent s @ accepted_by (send_plan s) hdr"
    by (subst s1, simp)+
  have "s' = s1\<lparr>sent := sent s1 @ accepted_by (send_plan s1) body, send_plan := tl (send_plan s1)\<rparr>"
    by (rule send_accepts [OF b])
  then have "s' = s1\<lparr>sent := sent s @ accepted_by (send_plan s) hdr
                               @ accepted_by (tl (send_plan s)) body,
                     send_plan := tl (tl (send_plan s))\<rparr>"
    by (simp only: p t append_assoc)
  then have "s' = s\<lparr>sent := sent s @ accepted_by (send_plan s) hdr
                               @ accepted_by (tl (send_plan s)) body,
                     send_plan := tl (tl (send_plan s))\<rparr>"
    by (subst (asm) s1) simp
  with h show ?thesis by blast
qed

lemma accepted_by_allows: "allows (length data) p \<Longrightarrow> accepted_by p data = data"
  by (induction p data rule: accepted_by.induct) simp_all

lemma send_succeeds:
  assumes "connected s" and "Raise \<notin> set (take 1 (send_plan s))"
  shows "\<exists>k s'. send data s = (Inr k, s') \<and> connected s' \<and> send_plan s' = tl (send_plan s)"
  using assms by (auto simp: send_def split: list.splits io.splits)

lemma send_frame_succeeds:
  assumes "connected s" and "Raise \<notin> set (take 2 (send_plan s))"
    and "length body < 4294967296"
  shows "\<exists>s'. send_frame bo body s = (Inr (), s')"
proof -
  obtain hdr where h: "pack_I bo (length body) = Inr hdr"
    using assms(3) by (simp add: pack_I_def)
  have p1: "Raise \<notin> set (take 1 (send_plan s))"
    using assms(2) by (cases "send_plan s") auto
  from send_succeeds [OF assms(1) p1, of hdr] obtain k1 s1 where
    a: "send hdr s = (Inr k1, s1)" and c1: "connected s1"
    and t1: "send_plan s1 = tl (send_plan s)" by blast
  have p2: "Raise \<notin> set (take 1 (send_plan s1))"
    using assms(2) t1 by (cases "send_plan s"; cases "tl (send_plan s)") auto
  from send_succeeds [OF c1 p2, of body] obtain k2 s2 where
    b: "send body s1 = (Inr k2, s2)" by blast
  show ?thesis
    using h a b by (simp add: send_frame_def)
qed

lemma send_prefix: "\<exists>i. sent (snd (send data s)) = sent s @ take i data"
proof (cases "connected s")
  case False
  then show ?thesis by (intro exI [of _ 0]) (simp add: send_def)
next
  case True
  show ?thesis
  proof (cases "send_plan s")
    case Nil
    with True show ?thesis by (intro exI [of _ "length data"]) (simp add: send_def)
  next
    case (Cons e p)
    show ?thesis
    proof (cases e)
      case (Short k)
      with True Cons show ?thesis by (intro exI [of _ "Suc k"]) (simp add: send_def)
    next
      case Raise
      with True Cons show ?thesis by (intro exI [of _ 0]) (simp add: send_def)
    qed
  qed
qed

lemma send_frame_prefixes:
  assumes "pack_I bo (length body) = Inr hdr"
  shows "\<exists>i j. sent (snd (send_frame bo body s)) = sent s @ take i hdr @ take j body"
proof -
  obtain r1 s1 where a: "send hdr s = (r1, s1)" by (cases "send hdr s")
  from send_prefix [of hdr s] a obtain i where i: "sent s1 = sent s @ take i hdr" by auto
  show ?thesis
  proof (cases r1)
    case (Inl e)
    with assms a i show ?thesis
      by (intro exI [of _ i] exI [of _ 0]) (simp add: send_frame_def)
  next
    case (Inr k)
    obtain r2 s2 where b: "send body s1 = (r2, s2)" by (cases "send body s1")
    from send_prefix [of body s1] b obtain j where j: "sent s2 = sent s1 @ take j body" by auto
    from assms a b Inr i j show ?thesis
      by (intro exI [of _ i] exI [of _ j]) (simp add: send_frame_def split: sum.splits)
  qed
qed

lemma send_frame_too_long:
  "\<not> length body < 4294967296 \<Longrightarrow> send_frame bo body s = (Inl StructError, s)"
  by (simp add: send_frame_def pack_I_def)

lemma send_message_sent:
  assumes "socket c = Some s"
    and "send_frame (byte_order h) (map of_nat (json_dumps (make_message now_ms ty pl rid c))) s
           = (Inr (), s')"
  shows "send_message h now_ms ty pl rid c w
           = (if printable (Sent ty (take 50 pl) (50 < length pl))
              then receive_message h (c\<lparr>socket := Some s'\<rparr>)
                     (print (Sent ty (take 50 pl) (50 < length pl)) w)
              else (None, c\<lparr>socket := Some s'\<rparr>, print (SendFailed ValueError) w))"
  using assms by (simp add: send_message_def encode_json_dumps print_line_def)

lemma send_message_raised:
  assumes "socket c = Some s"
    and "send_frame (byte_order h) (map of_nat (json_dumps (make_message now_ms ty pl rid c))) s
           = (Inl e, s')"
  shows "send_message h now_ms ty pl rid c w
           = (None, c\<lparr>socket := Some s'\<rparr>, print (SendFailed e) w)"
  using assms by (simp add: send_message_def encode_json_dumps)

lemma receive_message_socket:
  "socket c = Some s \<Longrightarrow>
     socket (fst (snd (receive_message h c w))) = Some (snd (recv_frame (byte_order h) s))"
  by (simp add: receive_message_def print_line_def
        split: prod.splits frame_result.splits sum.splits)

lemma send_message_final_socket:
  assumes "socket c = Some s"
  shows "\<exists>s'. socket (fst (snd (send_message h now_ms ty pl rid c w))) = Some s'
           \<and> sent s' = sent (snd (send_frame (byte_order h)
                 (map of_nat (json_dumps (make_message now_ms ty pl rid c))) s))"
proof -
  let ?B = "map of_nat (json_dumps (make_message now_ms ty pl rid c)) :: byte list"
  obtain r s1 where f: "send_frame (byte_order h) ?B s = (r, s1)"
    by (cases "send_frame (byte_order h) ?B s")
  show ?thesis
  proof (cases r)
    case (Inl e)
    with f send_message_raised [OF assms, of h now_ms ty pl rid e s1 w] show ?thesis by simp
  next
    case (Inr u)
    with f have f': "send_frame (byte_order h) ?B s = (Inr (), s1)" by simp
    show ?thesis
    proof (cases "printable (Sent ty (take 50 pl) (50 < length pl))")
      case True
      have "socket (fst (snd (receive_message h (c\<lparr>socket := Some s1\<rparr>)
               (print (Sent ty (take 50 pl) (50 < length pl)) w))))
             = Some (snd (recv_frame (byte_order h) s1))"
        by (rule receive_message_socket) simp
      with True f' send_message_sent [OF assms f', of w] show ?thesis
        by (simp add: recv_frame_sent)
    next
      case False
      then have "send_message h now_ms ty pl rid c w
                   = (None, c\<lparr>socket := Some s1\<rparr>, print (SendFailed ValueError) w)"
        by (simp only: send_message_sent [OF assms f', of w] if_False)
      with f' show ?thesis by simp
    qed
  qed
qed

lemma receive_message_outbound:
  "fst (receive_message h (c\<lparr>socket := Some (s\<lparr>sent := X, send_plan := Y\<rparr>)\<rparr>) w')
     = fst (receive_message h (c\<lparr>socket := Some s\<rparr>) w)"
  by (simp add: receive_message_def case_prod_beta recv_frame_outbound print_line_def
        split: frame_result.splits sum.splits)

lemma receive_message_decodes:
  "socket c = Some s \<Longrightarrow> fst (receive_message h c w) = Some m \<Longrightarrow>
     \<exists>message_data line. fst (recv_frame (byte_order h) s) = Frame message_data
        \<and> json_loads h message_data = Inr m \<and> describe m = Inr line \<and> printable line"
  by (auto simp: receive_message_def case_prod_beta print_line_def
        split: frame_result.splits sum.splits if_splits)

subsection \<open>The sample messages\<close>

lemma json_dumps_pong: "json_dumps pong_reply = ascii
  ''{\"type\": \"PONG\", \"payload\": \"pong\", \"request_id\": \"req_42\", \"client_id\": \"service\"}''"
  by (simp add: json_dumps_def pong_reply_def dumps_str_def escape_char_def ascii_def)

lemma length_pong: "length (json_dumps pong_reply) = 83"
  by (simp add: json_dumps_pong ascii_def)

lemma describe_pong: "describe (to_json pong_reply) = Inr (Received (JStr (ascii ''PONG'')) (JStr (ascii ''pong'')) False)"
  by (simp add: describe_def to_json_def pong_reply_def ascii_def)

lemma recv_pong:
  "quiet s \<Longrightarrow> allows 4 (recv_plan s) \<Longrightarrow>
   inbound s = le_bytes 83 @ map of_nat (json_dumps pong_reply) \<Longrightarrow>
   fst (recv_frame Little s) = Frame (map of_nat (json_dumps pong_reply))"
  using recv_frame_quiet [of s "le_bytes 83" "map of_nat (json_dumps pong_reply)" Little 83]
  by (simp add: length_pong length_le_bytes unpack_I_def le_value_le_bytes)

lemma json_dumps_ping:
  "json_dumps (make_message 1700000000123 (ascii ''PING'') (ascii ''ping'') (ascii ''req_7'')
       (demo_client\<lparr>socket := x\<rparr>))
   = ascii ''{\"type\": \"PING\", \"payload\": \"ping\", \"request_id\": \"req_7\", \"client_id\": \"test_client_1700000000\"}''"
  by (simp add: json_dumps_def make_message_def dumps_str_def escape_char_def ascii_def
        demo_client_def)

lemma json_dumps_accents:
  "json_dumps (make_message 1700000000123 (ascii ''PING'') [233, 128512] (ascii ''req_7'')
       (demo_client\<lparr>socket := x\<rparr>))
   = ascii ''{\"type\": \"PING\", \"payload\": \"'' @ [92] @ ascii ''u00e9'' @ [92]
     @ ascii ''ud83d'' @ [92] @ ascii ''ude00\", \"request_id\": \"req_7\", \"client_id\": \"test_client_1700000000\"}''"
  by (simp add: json_dumps_def make_message_def dumps_str_def escape_char_def hex4_def
        hexdigit_def ascii_def demo_client_def)

lemma length_ping:
  "length (json_dumps (make_message 1700000000123 (ascii ''PING'') (ascii ''ping'') (ascii ''req_7'')
       (demo_client\<lparr>socket := x\<rparr>))) = 97"
  by (simp add: json_dumps_ping) (simp add: ascii_def)

lemma length_accents:
  "length (json_dumps (make_message 1700000000123 (ascii ''PING'') [233, 128512] (ascii ''req_7'')
       (demo_client\<lparr>socket := x\<rparr>))) = 111"
  by (simp add: json_dumps_accents) (simp add: ascii_def)

lemma printable_ping:
  "printable (Sent (ascii ''PING'') (take 50 (ascii ''ping'')) (50 < length (ascii ''ping'')))"
  by (simp add: encodable_def ascii_def utf8_char_def)

lemma printable_pong:
  "printable (Received (JStr (ascii ''PONG'')) (JStr (ascii ''pong'')) False)"
  by (simp add: encodable_def ascii_def utf8_char_def)

lemma receive_pong:
  assumes "quiet s" and "allows 4 (recv_plan s)"
    and "inbound s = le_bytes 83 @ map of_nat (json_dumps pong_reply)"
  shows "fst (receive_message pong_host (c\<lparr>socket := Some s\<rparr>) w) = Some (to_json pong_reply)"
  using recv_pong [OF assms] printable_pong
  by (cases "recv_frame Little s")
     (simp add: receive_message_def pong_host_def describe_pong print_line_def)

lemma send_ping:
  assumes "send_frame (byte_order h)
             (map of_nat (json_dumps (make_message now_ms (ascii ''PING'') (ascii ''ping'') rid
                (demo_client\<lparr>socket := Some s\<rparr>)))) s = (Inr (), s')"
  shows "send_message h now_ms (ascii ''PING'') (ascii ''ping'') rid
           (demo_client\<lparr>socket := Some s\<rparr>) w
         = receive_message h (demo_client\<lparr>socket := Some s'\<rparr>)
             (print (Sent (ascii ''PING'') (ascii ''ping'') False) w)"
proof -
  have c: "socket (demo_client\<lparr>socket := Some s\<rparr>) = Some s" by simp
  have p: "take 50 (ascii ''ping'') = ascii ''ping''" "(50 < length (ascii ''ping'')) = False"
    by (simp_all add: ascii_def)
  show ?thesis
    using send_message_sent [OF c assms, of w] printable_ping
    by (simp only: if_True) (simp add: p)
qed

section \<open>The claims\<close>

subsection \<open>Disconnecting\<close>

text \<open>
  Claim C9. \<open>disconnect\<close> closes the socket of the session and forgets it; on a
  session without a socket it changes nothing and prints nothing. So running it twice
  gives the state that running it once gives.
\<close>

theorem disconnect_idempotent:
  "(case disconnect c w of (c', w') \<Rightarrow> disconnect c' w' = (c', w') \<and> socket c' = None)
   \<and> (socket c = None \<longrightarrow> disconnect c w = (c, w))
   \<and> (\<forall>s. socket c = Some s \<longrightarrow>
          closed_sockets (snd (disconnect c w)) = closed_sockets w @ [close s]
          \<and> \<not> connected (close s))"
  by (simp add: disconnect_def close_def print_def split: option.splits)

theorem disconnect_idempotent_witness:
  "(case disconnect (demo_client\<lparr>socket := Some demo_sock\<rparr>) demo_world of
      (c', w') \<Rightarrow> disconnect c' w' = (c', w') \<and> socket c' = None)
   \<and> closed_sockets (snd (disconnect (demo_client\<lparr>socket := Some demo_sock\<rparr>) demo_world))
       = [demo_sock\<lparr>connected := False\<rparr>]
   \<and> disconnect demo_client demo_world = (demo_client, demo_world)"
  using disconnect_idempotent [of "demo_client\<lparr>socket := Some demo_sock\<rparr>" demo_world]
    disconnect_idempotent [of demo_client demo_world]
  by (simp add: demo_client_def demo_world_def close_def)

subsection \<open>A request on a session without a socket\<close>

text \<open>
  Claim C10. When \<open>self.socket\<close> is \<open>None\<close>, \<open>send_message\<close> returns \<open>None\<close> at
  once: the session is returned as it was, the only effect is the line printed, and no
  socket exists that could be written to or read from. \<open>receive_message\<close> returns
  \<open>None\<close> and changes nothing at all.
\<close>

theorem not_connected_request:
  "socket c = None \<Longrightarrow>
     send_message h now_ms message_type payload request_id c w = (None, c, print NotConnected w)
     \<and> receive_message h c w = (None, c, w)
     \<and> closed_sockets (print NotConnected w) = closed_sockets w"
  by (simp add: send_message_def receive_message_def print_def)

theorem not_connected_request_witness:
  "socket demo_client = None
   \<and> send_message demo_host 1700000000123 (ascii ''PING'') (ascii ''ping'') [] demo_client demo_world
       = (None, demo_client, \<lparr>stdout = [NotConnected], closed_sockets = []\<rparr>)
   \<and> receive_message demo_host demo_client demo_world = (None, demo_client, demo_world)"
proof -
  have n: "socket demo_client = None" by (simp add: demo_client_def)
  show ?thesis
    using n not_connected_request [OF n, of demo_host 1700000000123 "ascii ''PING''" "ascii ''ping''" "[]" demo_world]
    by (simp add: print_def demo_world_def)
qed

subsection \<open>Generated request identifiers\<close>

text \<open>
  Claim C5, as amended. The identifier generated for an omitted \<open>request_id\<close> is
  \<open>req_\<close> followed by the clock reading in milliseconds. Two calls whose clock readings
  differ get different identifiers.
\<close>

theorem generated_request_id_distinct:
  "t1 \<noteq> t2 \<Longrightarrow>
     msg_request_id (make_message t1 ty1 p1 [] c) \<noteq> msg_request_id (make_message t2 ty2 p2 [] c)"
  by (auto simp: make_message_def dest: str_int_inj)

theorem generated_request_id_distinct_witness:
  "(1700000000123 :: int) \<noteq> 1700000000124
   \<and> msg_request_id (make_message 1700000000123 (ascii ''PING'') (ascii ''ping'') [] demo_client)
     \<noteq> msg_request_id (make_message 1700000000124 (ascii ''PING'') (ascii ''ping'') [] demo_client)"
proof -
  have d: "(1700000000123 :: int) \<noteq> 1700000000124" by simp
  show ?thesis
    using d generated_request_id_distinct [OF d] by simp
qed

text \<open>
  As the claim is written, any two calls get different identifiers. Two calls within
  the same millisecond do not.
\<close>

theorem generated_request_id_collision:
  "msg_request_id (make_message 1700000000123 (ascii ''PING'') (ascii ''ping'') [] demo_client)
     = msg_request_id (make_message 1700000000123 (ascii ''GET_PROFILES'') [] [] demo_client)"
  by (simp add: make_message_def)

subsection \<open>A truncated header\<close>

text \<open>
  Claim C6. The header is read by one \<open>recv(4)\<close>. When the stream holds fewer than 4
  bytes before it ends, \<open>receive_message\<close> returns \<open>None\<close>; on a socket whose reads do
  not raise, the framing ends in the truncated-header outcome, only the header read has
  consumed anything, and nothing is printed.
\<close>

theorem short_header_fails:
  assumes "socket c = Some s" and "length (inbound s) < 4"
  shows "fst (receive_message h c w) = None
         \<and> fst (recv_frame (byte_order h) s) \<in> {ShortHeader, Raised OSError}
         \<and> (quiet s \<longrightarrow> recv_frame (byte_order h) s = (ShortHeader, snd (recv 4 s))
                          \<and> receive_message h c w = (None, c\<lparr>socket := Some (snd (recv 4 s))\<rparr>, w))"
proof -
  have r: "(\<exists>d. fst (recv 4 s) = Inr d \<and> length d \<noteq> 4) \<or> fst (recv 4 s) = Inl OSError"
    using assms(2) by (auto simp: recv_def split: list.splits io.splits)
  have q: "quiet s \<Longrightarrow> \<exists>d. fst (recv 4 s) = Inr d \<and> length d \<noteq> 4"
    using assms(2) by (auto simp: recv_def quiet_def split: list.splits io.splits)
  have f: "fst (recv_frame (byte_order h) s) \<in> {ShortHeader, Raised OSError}"
    using r by (auto simp: recv_frame_def case_prod_beta)
  have f': "quiet s \<Longrightarrow> recv_frame (byte_order h) s = (ShortHeader, snd (recv 4 s))"
    using q by (auto simp: recv_frame_def case_prod_beta)
  have n: "fst (receive_message h c w) = None"
    using assms(1) f by (cases "recv_frame (byte_order h) s") (auto simp: receive_message_def)
  have n': "quiet s \<Longrightarrow> receive_message h c w = (None, c\<lparr>socket := Some (snd (recv 4 s))\<rparr>, w)"
    using assms(1) f' by (simp add: receive_message_def)
  show ?thesis using f f' n n' by blast
qed

theorem short_header_fails_witness:
  "socket (demo_client\<lparr>socket := Some (demo_sock\<lparr>inbound := [5, 0]\<rparr>)\<rparr>)
     = Some (demo_sock\<lparr>inbound := [5, 0]\<rparr>)
   \<and> length (inbound (demo_sock\<lparr>inbound := [5, 0]\<rparr>)) < 4
   \<and> quiet (demo_sock\<lparr>inbound := [5, 0]\<rparr>)
   \<and> receive_message demo_host (demo_client\<lparr>socket := Some (demo_sock\<lparr>inbound := [5, 0]\<rparr>)\<rparr>)
         demo_world
       = (None, demo_client\<lparr>socket := Some demo_sock\<rparr>, demo_world)"
  using short_header_fails [of "demo_client\<lparr>socket := Some (demo_sock\<lparr>inbound := [5, 0]\<rparr>)\<rparr>"
      "demo_sock\<lparr>inbound := [5, 0]\<rparr>" demo_host demo_world]
  by (simp add: demo_sock_def quiet_def recv_def)

subsection \<open>Framing round trip\<close>

text \<open>
  Claim C1, as amended. Let a payload of fewer than \<open>2^32\<close> bytes be written by the two
  \<open>send\<close> calls of \<open>send_message\<close> on a socket that takes both whole, and let the bytes
  written arrive at a socket whose reads do not raise and whose first read delivers the
  4 header bytes together. Then the framing part of \<open>receive_message\<close> returns exactly the
  payload, however the body is cut into chunks, and leaves what follows the frame in
  the stream.
\<close>

theorem frame_round_trip:
  assumes len: "length P < 4294967296"
    and sender: "connected a" "allows 4 (send_plan a)" "allows (length P) (tl (send_plan a))"
    and receiver: "quiet r" "allows 4 (recv_plan r)"
    and wire: "inbound r = drop (length (sent a)) (sent (snd (send_frame bo P a))) @ rest"
  shows "fst (send_frame bo P a) = Inr ()
         \<and> fst (recv_frame bo r) = Frame P
         \<and> inbound (snd (recv_frame bo r)) = rest"
proof -
  from send_frame_allows [OF sender len, of bo] obtain hdr where
    h: "length hdr = 4" "unpack_I bo hdr = Inr (length P)"
    and s: "send_frame bo P a
              = (Inr (), a\<lparr>sent := sent a @ hdr @ P, send_plan := tl (tl (send_plan a))\<rparr>)"
    by blast
  from wire s have i: "inbound r = hdr @ P @ rest" by simp
  from recv_frame_quiet [OF receiver i h] s show ?thesis by simp
qed

theorem frame_round_trip_witness:
  "fst (send_frame Little [104, 105] demo_sock) = Inr ()
   \<and> sent (snd (send_frame Little [104, 105] demo_sock)) = [2, 0, 0, 0, 104, 105]
   \<and> fst (recv_frame Little
        (demo_sock\<lparr>inbound := [2, 0, 0, 0, 104, 105, 7], recv_plan := [Short 3, Short 0, Short 0]\<rparr>))
       = Frame [104, 105]
   \<and> inbound (snd (recv_frame Little
        (demo_sock\<lparr>inbound := [2, 0, 0, 0, 104, 105, 7], recv_plan := [Short 3, Short 0, Short 0]\<rparr>)))
       = [7]"
proof -
  let ?r = "demo_sock\<lparr>inbound := [2, 0, 0, 0, 104, 105, 7], recv_plan := [Short 3, Short 0, Short 0]\<rparr>"
  have s: "sent (snd (send_frame Little [104, 105] demo_sock)) = [2, 0, 0, 0, 104, 105]"
    by (simp add: send_frame_def pack_I_def le_bytes_def send_def demo_sock_def)
  have "fst (send_frame Little [104, 105] demo_sock) = Inr ()
         \<and> fst (recv_frame Little ?r) = Frame [104, 105]
         \<and> inbound (snd (recv_frame Little ?r)) = [7]"
    by (rule frame_round_trip [where a = demo_sock])
       (simp_all add: s, simp_all add: demo_sock_def quiet_def)
  with s show ?thesis by simp
qed

text \<open>
  As the claim is written, the frame may arrive in chunks of any size. The header is
  read by a single \<open>recv(4)\<close>, and line 83 gives up when it returns fewer than 4
  bytes: a stream that delivers one byte per read loses the frame.
\<close>

theorem frame_round_trip_chunked_header:
  "sent (snd (send_frame Little [104, 105] demo_sock)) = [2, 0, 0, 0, 104, 105]
   \<and> fst (recv_frame Little
        (demo_sock\<lparr>inbound := [2, 0, 0, 0, 104, 105],
                   recv_plan := [Short 0, Short 0, Short 0, Short 0, Short 0, Short 0]\<rparr>))
       = ShortHeader
   \<and> fst (receive_message demo_host
        (demo_client\<lparr>socket := Some (demo_sock\<lparr>inbound := [2, 0, 0, 0, 104, 105],
                   recv_plan := [Short 0, Short 0, Short 0, Short 0, Short 0, Short 0]\<rparr>)\<rparr>)
        demo_world) = None"
  by (simp add: send_frame_def pack_I_def le_bytes_def send_def demo_sock_def recv_frame_def
        recv_def receive_message_def)

subsection \<open>A stream that ends inside the body\<close>

text \<open>
  Claim C2. When the header has been read whole and announces \<open>n\<close> bytes, and the
  stream ends after fewer than \<open>n\<close> body bytes, the framing ends in the
  incomplete-message outcome with the number of bytes obtained and the number expected;
  \<open>receive_message\<close> prints both and returns \<open>None\<close>. On any socket, a body that is
  returned has exactly the length its header announced.
\<close>

theorem early_close_detected:
  assumes "socket c = Some s" and "quiet s" and "allows 4 (recv_plan s)"
    and "inbound s = hdr @ body" and "length hdr = 4"
    and "unpack_I (byte_order h) hdr = Inr n" and "length body < n"
  shows "fst (recv_frame (byte_order h) s) = Incomplete (length body) n
         \<and> fst (receive_message h c w) = None
         \<and> snd (snd (receive_message h c w)) = print (IncompleteMessage (length body) n) w
         \<and> (\<forall>s0 data. fst (recv_frame (byte_order h) s0) = Frame data \<longrightarrow>
               (\<exists>hdr0. fst (recv 4 s0) = Inr hdr0
                       \<and> unpack_I (byte_order h) hdr0 = Inr (length data)))"
proof -
  have f: "fst (recv_frame (byte_order h) s) = Incomplete (length body) n"
    using recv_frame_quiet [OF assms(2,3,4,5,6)] assms(7) by simp
  have r: "fst (receive_message h c w) = None
           \<and> snd (snd (receive_message h c w)) = print (IncompleteMessage (length body) n) w"
    using f assms(1) by (cases "recv_frame (byte_order h) s") (simp add: receive_message_def)
  have g: "\<And>s0 data. fst (recv_frame (byte_order h) s0) = Frame data \<Longrightarrow>
             \<exists>hdr0. fst (recv 4 s0) = Inr hdr0 \<and> unpack_I (byte_order h) hdr0 = Inr (length data)"
    by (auto simp: recv_frame_def case_prod_beta split: sum.splits if_splits)
  show ?thesis using f r g by blast
qed

theorem early_close_detected_witness:
  "fst (recv_frame Little (demo_sock\<lparr>inbound := [5, 0, 0, 0, 104, 105], recv_plan := [Short 3, Short 0]\<rparr>))
     = Incomplete 2 5
   \<and> fst (receive_message demo_host
        (demo_client\<lparr>socket := Some (demo_sock\<lparr>inbound := [5, 0, 0, 0, 104, 105], recv_plan := [Short 3, Short 0]\<rparr>)\<rparr>)
        demo_world) = None
   \<and> stdout (snd (snd (receive_message demo_host
        (demo_client\<lparr>socket := Some (demo_sock\<lparr>inbound := [5, 0, 0, 0, 104, 105], recv_plan := [Short 3, Short 0]\<rparr>)\<rparr>)
        demo_world))) = [IncompleteMessage 2 5]"
proof -
  let ?s = "demo_sock\<lparr>inbound := [5, 0, 0, 0, 104, 105], recv_plan := [Short 3, Short 0]\<rparr>"
  let ?c = "demo_client\<lparr>socket := Some ?s\<rparr>"
  have e: "fst (recv_frame (byte_order demo_host) ?s) = Incomplete (length [104, 105 :: byte]) 5
         \<and> fst (receive_message demo_host ?c demo_world) = None
         \<and> snd (snd (receive_message demo_host ?c demo_world))
             = print (IncompleteMessage (length [104, 105 :: byte]) 5) demo_world
         \<and> (\<forall>s0 data. fst (recv_frame (byte_order demo_host) s0) = Frame data \<longrightarrow>
               (\<exists>hdr0. fst (recv 4 s0) = Inr hdr0
                       \<and> unpack_I (byte_order demo_host) hdr0 = Inr (length data)))"
    by (rule early_close_detected [where s = ?s and hdr = "[5, 0, 0, 0]"])
       (simp_all add: demo_sock_def quiet_def demo_host_def unpack_I_def)
  then show ?thesis
    by (simp add: demo_host_def print_def demo_world_def)
qed

subsection \<open>Writing the frame\<close>

text \<open>
  Claim C3, as amended. On a session that has a socket, \<open>send_message\<close> hands the header
  to \<open>send\<close> once and then the body to \<open>send\<close> once. When one of the two calls raises,
  the method reports it and returns \<open>None\<close> without reading. Otherwise the socket has
  taken two calls, and what has been written is the part of the header that the first
  call accepted followed by the part of the body that the second call accepted: nothing
  is sent again. Only then, and only when the line of line 66 can be printed, is the
  response read. When the socket accepts both calls in full, the whole frame, header
  then body, has been written before the read. Both calls succeed on a connected socket
  whose next two writes do not raise, for a body of fewer than \<open>2^32\<close> bytes.
\<close>

theorem frame_written_before_read:
  assumes "socket c = Some s"
  shows "(connected s \<and> Raise \<notin> set (take 2 (send_plan s))
            \<and> length (json_dumps (make_message now_ms ty pl rid c)) < 4294967296
          \<longrightarrow> (\<exists>s'. send_frame (byte_order h)
                       (map of_nat (json_dumps (make_message now_ms ty pl rid c))) s
                     = (Inr (), s')))
       \<and> (\<forall>e s'. send_frame (byte_order h)
                     (map of_nat (json_dumps (make_message now_ms ty pl rid c))) s = (Inl e, s')
            \<longrightarrow> send_message h now_ms ty pl rid c w
                  = (None, c\<lparr>socket := Some s'\<rparr>, print (SendFailed e) w))
       \<and> (\<forall>s'. send_frame (byte_order h)
                   (map of_nat (json_dumps (make_message now_ms ty pl rid c))) s = (Inr (), s')
            \<longrightarrow> (\<exists>hdr.
                    pack_I (byte_order h) (length (json_dumps (make_message now_ms ty pl rid c)))
                      = Inr hdr
                    \<and> s' = s\<lparr>sent := sent s @ accepted_by (send_plan s) hdr
                                  @ accepted_by (tl (send_plan s))
                                      (map of_nat (json_dumps (make_message now_ms ty pl rid c))),
                              send_plan := tl (tl (send_plan s))\<rparr>
                    \<and> (allows 4 (send_plan s)
                         \<and> allows (length (json_dumps (make_message now_ms ty pl rid c)))
                             (tl (send_plan s))
                        \<longrightarrow> sent s' = sent s @ hdr
                              @ map of_nat (json_dumps (make_message now_ms ty pl rid c))))
                \<and> send_message h now_ms ty pl rid c w
                  = (if printable (Sent ty (take 50 pl) (50 < length pl))
                     then receive_message h (c\<lparr>socket := Some s'\<rparr>)
                            (print (Sent ty (take 50 pl) (50 < length pl)) w)
                     else (None, c\<lparr>socket := Some s'\<rparr>, print (SendFailed ValueError) w)))"
proof -
  let ?M = "make_message now_ms ty pl rid c"
  let ?B = "map of_nat (json_dumps ?M) :: byte list"
  have a: "connected s \<and> Raise \<notin> set (take 2 (send_plan s)) \<and> length (json_dumps ?M) < 4294967296
           \<longrightarrow> (\<exists>s'. send_frame (byte_order h) ?B s = (Inr (), s'))"
    using send_frame_succeeds [of s ?B "byte_order h"] by simp
  have b: "\<And>e s'. send_frame (byte_order h) ?B s = (Inl e, s')
            \<Longrightarrow> send_message h now_ms ty pl rid c w
                  = (None, c\<lparr>socket := Some s'\<rparr>, print (SendFailed e) w)"
    by (rule send_message_raised [OF assms])
  have c: "\<exists>hdr. pack_I (byte_order h) (length (json_dumps ?M)) = Inr hdr
              \<and> s' = s\<lparr>sent := sent s @ accepted_by (send_plan s) hdr
                                  @ accepted_by (tl (send_plan s)) ?B,
                        send_plan := tl (tl (send_plan s))\<rparr>
              \<and> (allows 4 (send_plan s) \<and> allows (length (json_dumps ?M)) (tl (send_plan s))
                  \<longrightarrow> sent s' = sent s @ hdr @ ?B)"
    if f: "send_frame (byte_order h) ?B s = (Inr (), s')" for s'
  proof -
    from send_frame_accepts [OF f] obtain hdr where
      h: "pack_I (byte_order h) (length ?B) = Inr hdr"
      and s': "s' = s\<lparr>sent := sent s @ accepted_by (send_plan s) hdr
                                  @ accepted_by (tl (send_plan s)) ?B,
                        send_plan := tl (tl (send_plan s))\<rparr>"
      by blast
    have l: "length hdr = 4"
      using h by (cases "byte_order h") (auto simp: pack_I_def length_le_bytes split: if_splits)
    have w: "sent s' = sent s @ hdr @ ?B"
      if "allows 4 (send_plan s)" "allows (length (json_dumps ?M)) (tl (send_plan s))"
      using that l by (subst s') (simp add: accepted_by_allows)
    from h s' w show ?thesis by auto
  qed
  have d: "\<And>s'. send_frame (byte_order h) ?B s = (Inr (), s')
            \<Longrightarrow> send_message h now_ms ty pl rid c w
                  = (if printable (Sent ty (take 50 pl) (50 < length pl))
                     then receive_message h (c\<lparr>socket := Some s'\<rparr>)
                            (print (Sent ty (take 50 pl) (50 < length pl)) w)
                     else (None, c\<lparr>socket := Some s'\<rparr>, print (SendFailed ValueError) w))"
    by (rule send_message_sent [OF assms])
  show ?thesis
    using a b c d by blast
qed

theorem frame_written_before_read_witness:
  "\<exists>s'. send_frame Little
           (map of_nat (json_dumps (make_message 1700000000123 (ascii ''PING'') (ascii ''ping'')
              (ascii ''req_7'') ping_client))) pong_sock = (Inr (), s')
      \<and> sent s' = le_bytes 97 @ map of_nat (json_dumps (make_message 1700000000123
              (ascii ''PING'') (ascii ''ping'') (ascii ''req_7'') ping_client))
      \<and> send_message pong_host 1700000000123 (ascii ''PING'') (ascii ''ping'') (ascii ''req_7'')
          ping_client demo_world
         = receive_message pong_host (ping_client\<lparr>socket := Some s'\<rparr>)
             (print (Sent (ascii ''PING'') (ascii ''ping'') False) demo_world)"
proof -
  let ?M = "make_message 1700000000123 (ascii ''PING'') (ascii ''ping'') (ascii ''req_7'') ping_client"
  let ?B = "map of_nat (json_dumps ?M) :: byte list"
  let ?L = "Sent (ascii ''PING'') (take 50 (ascii ''ping'')) (50 < length (ascii ''ping''))"
  have l: "length (json_dumps ?M) = 97"
    unfolding ping_client_def by (rule length_ping)
  have c: "socket ping_client = Some pong_sock"
    by (simp add: ping_client_def)
  have a: "connected pong_sock \<and> Raise \<notin> set (take 2 (send_plan pong_sock))
           \<and> length (json_dumps ?M) < 4294967296"
    by (simp add: l) (simp add: pong_sock_def)
  have w: "allows 4 (send_plan pong_sock) \<and> allows (length (json_dumps ?M)) (tl (send_plan pong_sock))"
    by (simp add: pong_sock_def)
  note t = frame_written_before_read [OF c, of 1700000000123 "ascii ''PING''" "ascii ''ping''"
      "ascii ''req_7''" pong_host demo_world]
  from t a obtain s' where
    f: "send_frame (byte_order pong_host) ?B pong_sock = (Inr (), s')" by blast
  from t f w obtain hdr where
    h: "pack_I (byte_order pong_host) (length (json_dumps ?M)) = Inr hdr"
    and s: "sent s' = sent pong_sock @ hdr @ ?B"
    by blast
  from t f have m: "send_message pong_host 1700000000123 (ascii ''PING'') (ascii ''ping'')
              (ascii ''req_7'') ping_client demo_world
            = (if printable ?L
               then receive_message pong_host (ping_client\<lparr>socket := Some s'\<rparr>) (print ?L demo_world)
               else (None, ping_client\<lparr>socket := Some s'\<rparr>, print (SendFailed ValueError) demo_world))"
    by blast
  from h have hdr: "hdr = le_bytes 97"
    by (simp add: l pong_host_def pack_I_def)
  have p: "take 50 (ascii ''ping'') = ascii ''ping''" "(50 < length (ascii ''ping'')) = False"
    by (simp_all add: ascii_def)
  have m': "send_message pong_host 1700000000123 (ascii ''PING'') (ascii ''ping'')
              (ascii ''req_7'') ping_client demo_world
            = receive_message pong_host (ping_client\<lparr>socket := Some s'\<rparr>)
                (print (Sent (ascii ''PING'') (ascii ''ping'') False) demo_world)"
    using m printable_ping by (simp only: if_True) (simp add: p)
  from f s m' show ?thesis
    unfolding hdr by (intro exI [of _ s']) (simp add: pong_host_def pong_sock_def)
qed

text \<open>
  As the claim is written, writing continues after a partial write until the frame is
  out. Lines 61 and 64 drop what \<open>send\<close> returns: on a socket that takes one byte per
  call, 2 of the 101 bytes of the frame are written, and the response is read all the
  same.
\<close>

theorem frame_written_before_read_short_writes:
  "fst (send_message pong_host 1700000000123 (ascii ''PING'') (ascii ''ping'') (ascii ''req_7'')
          (demo_client\<lparr>socket := Some (pong_sock\<lparr>send_plan := [Short 0, Short 0]\<rparr>)\<rparr>) demo_world)
     = Some (to_json pong_reply)
   \<and> map_option sent (socket (fst (snd (send_message pong_host 1700000000123 (ascii ''PING'')
          (ascii ''ping'') (ascii ''req_7'')
          (demo_client\<lparr>socket := Some (pong_sock\<lparr>send_plan := [Short 0, Short 0]\<rparr>)\<rparr>) demo_world))))
     = Some [97, 123]
   \<and> length (json_dumps (make_message 1700000000123 (ascii ''PING'') (ascii ''ping'') (ascii ''req_7'')
          (demo_client\<lparr>socket := Some (pong_sock\<lparr>send_plan := [Short 0, Short 0]\<rparr>)\<rparr>))) = 97"
proof -
  let ?s = "pong_sock\<lparr>send_plan := [Short 0, Short 0]\<rparr>"
  let ?c = "demo_client\<lparr>socket := Some ?s\<rparr>"
  let ?M = "make_message 1700000000123 (ascii ''PING'') (ascii ''ping'') (ascii ''req_7'') ?c"
  let ?B = "map of_nat (json_dumps ?M) :: byte list"
  let ?s1 = "pong_sock\<lparr>sent := [97], send_plan := [Short 0]\<rparr>"
  let ?s2 = "pong_sock\<lparr>sent := [97, 123], send_plan := []\<rparr>"
  have l: "length (json_dumps ?M) = 97" by (rule length_ping)
  have hd: "take (Suc 0) ?B = [123]"
    unfolding json_dumps_ping by (simp add: ascii_def)
  have p: "pack_I Little (length (json_dumps ?M)) = Inr [97, 0, 0, 0]"
    by (simp add: l pack_I_def le_bytes_def)
  have cn: "connected pong_sock" "sent pong_sock = []"
    by (simp_all add: pong_sock_def)
  have s1: "send [97, 0, 0, 0] ?s = (Inr 1, ?s1)"
    by (simp add: send_def cn)
  have s2: "send ?B ?s1 = (Inr 1, ?s2)"
    by (simp add: send_def cn hd l)
  have f: "send_frame (byte_order pong_host) ?B ?s = (Inr (), ?s2)"
    by (simp add: send_frame_def p s1 s2 pong_host_def)
  note sm = send_ping [OF f, of demo_world]
  have q: "quiet ?s2" "allows 4 (recv_plan ?s2)"
    "inbound ?s2 = le_bytes 83 @ map of_nat (json_dumps pong_reply)"
    by (simp_all add: pong_sock_def quiet_def)
  have r: "fst (send_message pong_host 1700000000123 (ascii ''PING'') (ascii ''ping'')
             (ascii ''req_7'') ?c demo_world) = Some (to_json pong_reply)"
    unfolding sm by (rule receive_pong [OF q])
  have "socket (fst (snd (send_message pong_host 1700000000123 (ascii ''PING'') (ascii ''ping'')
             (ascii ''req_7'') ?c demo_world))) = Some (snd (recv_frame (byte_order pong_host) ?s2))"
    unfolding sm by (rule receive_message_socket) simp
  then have t: "map_option sent (socket (fst (snd (send_message pong_host 1700000000123
             (ascii ''PING'') (ascii ''ping'') (ascii ''req_7'') ?c demo_world)))) = Some [97, 123]"
    by (simp add: recv_frame_sent)
  from r t l show ?thesis by simp
qed

subsection \<open>The response is the next frame\<close>

text \<open>
  Claim C4. On a session that has a socket, whatever message \<open>send_message\<close> returns is
  what \<open>receive_message\<close> returns on the incoming stream as it stood before the call: the
  parsed body of the next frame. When the session is connected, its two writes do not
  raise, the body has fewer than \<open>2^32\<close> bytes and the line of line 66 can be printed,
  the two results are equal, \<open>None\<close> included. The \<open>request_id\<close> sent plays no part; in
  the witness the reply carries \<open>req_42\<close> and answers the request \<open>req_7\<close>.
\<close>

theorem response_is_next_frame:
  assumes "socket c = Some s"
  shows "(\<forall>m. fst (send_message h now_ms ty pl rid c w) = Some m \<longrightarrow>
             fst (receive_message h c w) = Some m
             \<and> (\<exists>message_data. fst (recv_frame (byte_order h) s) = Frame message_data
                    \<and> json_loads h message_data = Inr m))
       \<and> (connected s \<and> Raise \<notin> set (take 2 (send_plan s))
            \<and> length (json_dumps (make_message now_ms ty pl rid c)) < 4294967296
            \<and> printable (Sent ty (take 50 pl) (50 < length pl))
          \<longrightarrow> fst (send_message h now_ms ty pl rid c w) = fst (receive_message h c w))"
proof -
  let ?B = "map of_nat (json_dumps (make_message now_ms ty pl rid c)) :: byte list"
  let ?L = "Sent ty (take 50 pl) (50 < length pl)"
  have c: "c\<lparr>socket := Some s\<rparr> = c" using assms by simp
  have read: "fst (send_message h now_ms ty pl rid c w) = fst (receive_message h c w)"
    if f: "send_frame (byte_order h) ?B s = (Inr (), s')" and p: "printable ?L" for s'
  proof -
    from send_frame_shape [OF f] obtain X Y where s': "s' = s\<lparr>sent := X, send_plan := Y\<rparr>"
      by blast
    have "send_message h now_ms ty pl rid c w
            = receive_message h (c\<lparr>socket := Some s'\<rparr>) (print ?L w)"
      using p by (simp only: send_message_sent [OF assms f, of w] if_True)
    then have "fst (send_message h now_ms ty pl rid c w)
                 = fst (receive_message h (c\<lparr>socket := Some s\<rparr>) w)"
      unfolding s' by (simp only: receive_message_outbound [where w = w])
    then show ?thesis by (simp only: c)
  qed
  have a: "fst (receive_message h c w) = Some m
           \<and> (\<exists>message_data. fst (recv_frame (byte_order h) s) = Frame message_data
                  \<and> json_loads h message_data = Inr m)"
    if m: "fst (send_message h now_ms ty pl rid c w) = Some m" for m
  proof -
    obtain r s' where f: "send_frame (byte_order h) ?B s = (r, s')"
      by (cases "send_frame (byte_order h) ?B s")
    have r: "r = Inr ()"
    proof (cases r)
      case (Inl e)
      with f m send_message_raised [OF assms, of h now_ms ty pl rid e s' w] show ?thesis by simp
    next
      case (Inr u)
      then show ?thesis by simp
    qed
    have p: "printable ?L"
    proof (rule ccontr)
      assume "\<not> printable ?L"
      then have "send_message h now_ms ty pl rid c w
                   = (None, c\<lparr>socket := Some s'\<rparr>, print (SendFailed ValueError) w)"
        using f r by (simp only: send_message_sent [OF assms f [unfolded r], of w] if_False)
      with m show False by simp
    qed
    from read [OF f [unfolded r] p] m have e: "fst (receive_message h c w) = Some m" by simp
    from receive_message_decodes [OF assms e] e show ?thesis by blast
  qed
  have b: "fst (send_message h now_ms ty pl rid c w) = fst (receive_message h c w)"
    if "connected s" "Raise \<notin> set (take 2 (send_plan s))"
      "length (json_dumps (make_message now_ms ty pl rid c)) < 4294967296" "printable ?L"
  proof -
    from send_frame_succeeds [OF that(1,2), of ?B "byte_order h"] that(3)
    obtain s' where f: "send_frame (byte_order h) ?B s = (Inr (), s')" by auto
    from read [OF f that(4)] show ?thesis .
  qed
  show ?thesis using a b by blast
qed

theorem response_is_next_frame_witness:
  "fst (send_message pong_host 1700000000123 (ascii ''PING'') (ascii ''ping'') (ascii ''req_7'')
          ping_client demo_world)
     = Some (to_json pong_reply)
   \<and> fst (receive_message pong_host ping_client demo_world) = Some (to_json pong_reply)
   \<and> getitem (to_json pong_reply) (ascii ''request_id'') = Inr (JStr (ascii ''req_42''))"
proof -
  let ?M = "make_message 1700000000123 (ascii ''PING'') (ascii ''ping'') (ascii ''req_7'') ping_client"
  have c: "socket ping_client = Some pong_sock"
    by (simp add: ping_client_def)
  have l: "length (json_dumps ?M) = 97"
    unfolding ping_client_def by (rule length_ping)
  have a: "connected pong_sock \<and> Raise \<notin> set (take 2 (send_plan pong_sock))
           \<and> length (json_dumps ?M) < 4294967296
           \<and> printable (Sent (ascii ''PING'') (take 50 (ascii ''ping'')) (50 < length (ascii ''ping'')))"
    using printable_ping by (simp add: l) (simp add: pong_sock_def)
  have q: "quiet pong_sock" "allows 4 (recv_plan pong_sock)"
    "inbound pong_sock = le_bytes 83 @ map of_nat (json_dumps pong_reply)"
    by (simp_all add: pong_sock_def quiet_def)
  have r: "fst (receive_message pong_host ping_client demo_world) = Some (to_json pong_reply)"
    unfolding ping_client_def by (rule receive_pong [OF q])
  have g: "getitem (to_json pong_reply) (ascii ''request_id'') = Inr (JStr (ascii ''req_42''))"
    by (simp add: to_json_def pong_reply_def ascii_def)
  have "fst (send_message pong_host 1700000000123 (ascii ''PING'') (ascii ''ping'') (ascii ''req_7'')
          ping_client demo_world) = fst (receive_message pong_host ping_client demo_world)"
    using response_is_next_frame [OF c, of pong_host 1700000000123 "ascii ''PING''" "ascii ''ping''"
        "ascii ''req_7''" demo_world] a
    by blast
  with r g show ?thesis by simp
qed

subsection \<open>Errors end in \<open>None\<close>\<close>

text \<open>
  Claim C7, as amended. \<open>send_message\<close> always returns. It returns a message only when
  the session has a socket, both writes and all reads succeeded, both lines could be
  printed, the body had the announced length, it parsed, and it had a \<open>type\<close> and a
  sliceable \<open>payload\<close>. In every other case it returns \<open>None\<close>, and the last line
  printed reports the failure, except when the header read returned fewer than 4 bytes:
  then nothing is printed after the line for the request sent.
\<close>

theorem errors_contained:
  "case send_message h now_ms ty pl rid c w of
     (None, c', w') \<Rightarrow>
        (\<exists>d. is_failure d
           \<and> (stdout w' = stdout w @ [d]
              \<or> stdout w' = stdout w @ [Sent ty (take 50 pl) (50 < length pl), d]))
        \<or> (stdout w' = stdout w @ [Sent ty (take 50 pl) (50 < length pl)]
           \<and> (\<exists>s s'. socket c = Some s
                 \<and> send_frame (byte_order h)
                      (map of_nat (json_dumps (make_message now_ms ty pl rid c))) s = (Inr (), s')
                 \<and> fst (recv_frame (byte_order h) s') = ShortHeader))
   | (Some m, c', w') \<Rightarrow>
        (\<exists>s s' message_data line. socket c = Some s
           \<and> send_frame (byte_order h)
                (map of_nat (json_dumps (make_message now_ms ty pl rid c))) s = (Inr (), s')
           \<and> printable (Sent ty (take 50 pl) (50 < length pl))
           \<and> fst (recv_frame (byte_order h) s') = Frame message_data
           \<and> json_loads h message_data = Inr m
           \<and> describe m = Inr line
           \<and> printable line
           \<and> stdout w' = stdout w @ [Sent ty (take 50 pl) (50 < length pl), line])"
proof (cases "socket c")
  case None
  have "is_failure NotConnected" by simp
  with None show ?thesis
    by (auto simp: send_message_def print_def)
next
  case (Some s)
  let ?B = "map of_nat (json_dumps (make_message now_ms ty pl rid c)) :: byte list"
  let ?L = "Sent ty (take 50 pl) (50 < length pl)"
  obtain r s' where f: "send_frame (byte_order h) ?B s = (r, s')"
    by (cases "send_frame (byte_order h) ?B s")
  show ?thesis
  proof (cases r)
    case (Inl e)
    have "is_failure (SendFailed e)" by simp
    with f Inl send_message_raised [OF Some, of h now_ms ty pl rid e s' w] show ?thesis
      by (auto simp: print_def)
  next
    case (Inr u)
    with f have f': "send_frame (byte_order h) ?B s = (Inr (), s')" by simp
    show ?thesis
    proof (cases "printable ?L")
      case False
      then have sm: "send_message h now_ms ty pl rid c w
                       = (None, c\<lparr>socket := Some s'\<rparr>, print (SendFailed ValueError) w)"
        by (simp only: send_message_sent [OF Some f', of w] if_False)
      have "is_failure (SendFailed ValueError)" by simp
      then show ?thesis
        unfolding sm by (auto simp: print_def)
    next
      case True
      then have sm: "send_message h now_ms ty pl rid c w
                       = receive_message h (c\<lparr>socket := Some s'\<rparr>) (print ?L w)"
        by (simp only: send_message_sent [OF Some f', of w] if_True)
      obtain fr s'' where g: "recv_frame (byte_order h) s' = (fr, s'')"
        by (cases "recv_frame (byte_order h) s'")
      show ?thesis
      proof (cases fr)
        case (Raised e)
        have "is_failure (ReceiveFailed e)" by simp
        with g Raised show ?thesis
          unfolding sm by (auto simp: receive_message_def print_def)
      next
        case ShortHeader
        with g Some f' show ?thesis
          unfolding sm by (auto simp: receive_message_def print_def)
      next
        case (Incomplete got expected)
        have "is_failure (IncompleteMessage got expected)" by simp
        with g Incomplete show ?thesis
          unfolding sm by (auto simp: receive_message_def print_def)
      next
        case (Frame message_data)
        show ?thesis
        proof (cases "json_loads h message_data")
          case (Inl e)
          have "is_failure (ReceiveFailed e)" by simp
          with g Frame Inl show ?thesis
            unfolding sm by (auto simp: receive_message_def print_def)
        next
          case (Inr m)
          show ?thesis
          proof (cases "describe m")
            case (Inl e)
            have "is_failure (ReceiveFailed e)" by simp
            with g Frame Inr Inl show ?thesis
              unfolding sm by (auto simp: receive_message_def print_def)
          next
            case (Inr line)
            show ?thesis
            proof (cases "printable line")
              case False
              have "is_failure (ReceiveFailed ValueError)" by simp
              with False g Frame Inr \<open>json_loads h message_data = Inr m\<close> show ?thesis
                unfolding sm by (auto simp: receive_message_def print_def print_line_def)
            next
              case pl: True
              have "receive_message h (c\<lparr>socket := Some s'\<rparr>) (print ?L w)
                      = (Some m, c\<lparr>socket := Some s''\<rparr>, print line (print ?L w))"
                using pl g Frame Inr \<open>json_loads h message_data = Inr m\<close>
                by (simp add: receive_message_def print_line_def)
              moreover have "stdout (print line (print ?L w)) = stdout w @ [?L, line]"
                by (simp add: print_def)
              ultimately show ?thesis
                unfolding sm using Some f' True g Frame Inr \<open>json_loads h message_data = Inr m\<close> pl
                by (simp del: printable.simps)
            qed
          qed
        qed
      qed
    qed
  qed
qed

text \<open>
  As the claim is written, every failure comes with a diagnostic. A response stream
  that ends after two bytes gives \<open>None\<close> and no line that reports a failure.
\<close>

theorem errors_contained_silent_failure:
  "fst (send_message pong_host 1700000000123 (ascii ''PING'') (ascii ''ping'') (ascii ''req_7'')
          (demo_client\<lparr>socket := Some (demo_sock\<lparr>inbound := [5, 0]\<rparr>)\<rparr>) demo_world) = None
   \<and> stdout (snd (snd (send_message pong_host 1700000000123 (ascii ''PING'') (ascii ''ping'')
          (ascii ''req_7'') (demo_client\<lparr>socket := Some (demo_sock\<lparr>inbound := [5, 0]\<rparr>)\<rparr>)
          demo_world)))
     = [Sent (ascii ''PING'') (ascii ''ping'') False]
   \<and> \<not> is_failure (Sent (ascii ''PING'') (ascii ''ping'') False)"
proof -
  let ?s = "demo_sock\<lparr>inbound := [5, 0]\<rparr>"
  let ?c = "demo_client\<lparr>socket := Some ?s\<rparr>"
  let ?M = "make_message 1700000000123 (ascii ''PING'') (ascii ''ping'') (ascii ''req_7'') ?c"
  let ?B = "map of_nat (json_dumps ?M) :: byte list"
  have l: "length ?B < 4294967296" by (simp add: length_ping)
  have a: "connected ?s" "allows 4 (send_plan ?s)" "allows (length ?B) (tl (send_plan ?s))"
    by (simp_all add: demo_sock_def)
  from send_frame_allows [OF a l, of "byte_order pong_host"] obtain hdr where
    f: "send_frame (byte_order pong_host) ?B ?s
          = (Inr (), ?s\<lparr>sent := sent ?s @ hdr @ ?B, send_plan := tl (tl (send_plan ?s))\<rparr>)"
    by blast
  show ?thesis
    unfolding send_ping [OF f, of demo_world]
    by (simp add: receive_message_def recv_frame_def recv_def demo_sock_def print_def demo_world_def)
qed

subsection \<open>The header counts the bytes of the body\<close>

text \<open>
  Claim C8, as amended. On a session that has a socket, the body of a request is the
  UTF-8 encoding of the JSON text, and the header handed to \<open>send\<close> before it is 4 bytes
  that unpack to the number of bytes of that body. What the call writes is a prefix of
  that header followed by a prefix of that body; when the socket is connected and accepts
  both writes in full, it is the header followed by the whole body. A body of \<open>2^32\<close>
  bytes or more is not sent: the call returns \<open>None\<close> and writes nothing. In the witness
  the payload is U+00E9 and U+1F600: \<open>json.dumps\<close> escapes both, and the 111 characters
  of the text are 111 bytes.
\<close>

theorem header_counts_body_bytes:
  assumes "socket c = Some s"
  shows "\<exists>body. encode_utf8 (json_dumps (make_message now_ms ty pl rid c)) = Inr body
      \<and> (length body < 4294967296 \<longrightarrow>
           (\<exists>hdr. pack_I (byte_order h) (length body) = Inr hdr
              \<and> length hdr = 4
              \<and> unpack_I (byte_order h) hdr = Inr (length body)
              \<and> (\<exists>s' i j. socket (fst (snd (send_message h now_ms ty pl rid c w))) = Some s'
                    \<and> sent s' = sent s @ take i hdr @ take j body)
              \<and> (connected s \<and> allows 4 (send_plan s) \<and> allows (length body) (tl (send_plan s))
                  \<longrightarrow> (\<exists>s'. socket (fst (snd (send_message h now_ms ty pl rid c w))) = Some s'
                          \<and> sent s' = sent s @ hdr @ body))))
      \<and> (\<not> length body < 4294967296 \<longrightarrow>
           fst (send_message h now_ms ty pl rid c w) = None
           \<and> (\<exists>s'. socket (fst (snd (send_message h now_ms ty pl rid c w))) = Some s'
                 \<and> sent s' = sent s))"
proof -
  let ?B = "map of_nat (json_dumps (make_message now_ms ty pl rid c)) :: byte list"
  from send_message_final_socket [OF assms, of h now_ms ty pl rid w] obtain s' where
    fin: "socket (fst (snd (send_message h now_ms ty pl rid c w))) = Some s'"
    and snt: "sent s' = sent (snd (send_frame (byte_order h) ?B s))"
    by blast
  have short: "\<exists>hdr. pack_I (byte_order h) (length ?B) = Inr hdr
              \<and> length hdr = 4
              \<and> unpack_I (byte_order h) hdr = Inr (length ?B)
              \<and> (\<exists>s' i j. socket (fst (snd (send_message h now_ms ty pl rid c w))) = Some s'
                    \<and> sent s' = sent s @ take i hdr @ take j ?B)
              \<and> (connected s \<and> allows 4 (send_plan s) \<and> allows (length ?B) (tl (send_plan s))
                  \<longrightarrow> (\<exists>s'. socket (fst (snd (send_message h now_ms ty pl rid c w))) = Some s'
                          \<and> sent s' = sent s @ hdr @ ?B))"
    if l: "length ?B < 4294967296"
  proof -
    from pack_unpack [OF l, of "byte_order h"] obtain hdr where
      h: "pack_I (byte_order h) (length ?B) = Inr hdr" "length hdr = 4"
         "unpack_I (byte_order h) hdr = Inr (length ?B)"
      by blast
    from send_frame_prefixes [OF h(1), of s] obtain i j where
      "sent (snd (send_frame (byte_order h) ?B s)) = sent s @ take i hdr @ take j ?B"
      by blast
    with fin snt have p: "\<exists>s' i j. socket (fst (snd (send_message h now_ms ty pl rid c w))) = Some s'
                    \<and> sent s' = sent s @ take i hdr @ take j ?B"
      by auto
    have w: "\<exists>s'. socket (fst (snd (send_message h now_ms ty pl rid c w))) = Some s'
                          \<and> sent s' = sent s @ hdr @ ?B"
      if a: "connected s" "allows 4 (send_plan s)" "allows (length ?B) (tl (send_plan s))"
    proof -
      from send_frame_allows [OF a l, of "byte_order h"] h(1) have
        "send_frame (byte_order h) ?B s
           = (Inr (), s\<lparr>sent := sent s @ hdr @ ?B, send_plan := tl (tl (send_plan s))\<rparr>)"
        by auto
      with fin snt show ?thesis by simp
    qed
    from h p w show ?thesis by blast
  qed
  have long: "fst (send_message h now_ms ty pl rid c w) = None
           \<and> (\<exists>s'. socket (fst (snd (send_message h now_ms ty pl rid c w))) = Some s'
                 \<and> sent s' = sent s)"
    if l: "\<not> length ?B < 4294967296"
  proof -
    note f = send_frame_too_long [OF l, of "byte_order h" s]
    from send_message_raised [OF assms f, of w] have "fst (send_message h now_ms ty pl rid c w) = None"
      by simp
    with fin snt f show ?thesis by simp
  qed
  show ?thesis
  proof (rule exI [where x = ?B], intro conjI)
    show "encode_utf8 (json_dumps (make_message now_ms ty pl rid c)) = Inr ?B"
      by (rule encode_json_dumps)
  qed (use short long in \<open>blast+\<close>)
qed

theorem header_counts_body_bytes_witness:
  "\<exists>hdr body s'.
     encode_utf8 (json_dumps (make_message 1700000000123 (ascii ''PING'') [233, 128512]
        (ascii ''req_7'') ping_client)) = Inr body
     \<and> length body = 111
     \<and> socket (fst (snd (send_message pong_host 1700000000123 (ascii ''PING'') [233, 128512]
          (ascii ''req_7'') ping_client demo_world))) = Some s'
     \<and> sent s' = hdr @ body
     \<and> length hdr = 4
     \<and> unpack_I Little hdr = Inr 111"
proof -
  let ?M = "make_message 1700000000123 (ascii ''PING'') [233, 128512] (ascii ''req_7'') ping_client"
  have l: "length (json_dumps ?M) = 111"
    unfolding ping_client_def by (rule length_accents)
  have c: "socket ping_client = Some pong_sock"
    by (simp add: ping_client_def)
  from header_counts_body_bytes [OF c, of 1700000000123 "ascii ''PING''" "[233, 128512]"
      "ascii ''req_7''" pong_host demo_world]
  obtain body where e: "encode_utf8 (json_dumps ?M) = Inr body"
    and r: "length body < 4294967296 \<longrightarrow>
           (\<exists>hdr. pack_I (byte_order pong_host) (length body) = Inr hdr
              \<and> length hdr = 4
              \<and> unpack_I (byte_order pong_host) hdr = Inr (length body)
              \<and> (\<exists>s' i j. socket (fst (snd (send_message pong_host 1700000000123 (ascii ''PING'')
                      [233, 128512] (ascii ''req_7'') ping_client demo_world))) = Some s'
                    \<and> sent s' = sent pong_sock @ take i hdr @ take j body)
              \<and> (connected pong_sock \<and> allows 4 (send_plan pong_sock)
                    \<and> allows (length body) (tl (send_plan pong_sock))
                  \<longrightarrow> (\<exists>s'. socket (fst (snd (send_message pong_host 1700000000123 (ascii ''PING'')
                      [233, 128512] (ascii ''req_7'') ping_client demo_world))) = Some s'
                          \<and> sent s' = sent pong_sock @ hdr @ body)))"
    by blast
  from e have b: "length body = 111"
    by (auto simp: encode_json_dumps l)
  have a: "connected pong_sock \<and> allows 4 (send_plan pong_sock)
             \<and> allows (length body) (tl (send_plan pong_sock))"
    by (simp add: pong_sock_def)
  from r b a obtain hdr s' where
    h: "length hdr = 4" "unpack_I (byte_order pong_host) hdr = Inr (length body)"
    and s: "socket (fst (snd (send_message pong_host 1700000000123 (ascii ''PING'')
                      [233, 128512] (ascii ''req_7'') ping_client demo_world))) = Some s'"
    and t: "sent s' = sent pong_sock @ hdr @ body"
    by auto
  from e s t h b show ?thesis
    by (intro exI [of _ hdr] exI [of _ body] exI [of _ s'])
       (simp add: pong_host_def pong_sock_def)
qed

text \<open>
  As the claim is written, the header of what is emitted counts the body bytes that
  follow it. On a socket that takes the header whole and then one byte, the call
  succeeds, and the header that announces 97 bytes is followed by one.
\<close>

theorem header_counts_body_bytes_truncated_body:
  "fst (send_message pong_host 1700000000123 (ascii ''PING'') (ascii ''ping'') (ascii ''req_7'')
          (demo_client\<lparr>socket := Some (pong_sock\<lparr>send_plan := [Short 3, Short 0]\<rparr>)\<rparr>) demo_world)
     = Some (to_json pong_reply)
   \<and> map_option sent (socket (fst (snd (send_message pong_host 1700000000123 (ascii ''PING'')
          (ascii ''ping'') (ascii ''req_7'')
          (demo_client\<lparr>socket := Some (pong_sock\<lparr>send_plan := [Short 3, Short 0]\<rparr>)\<rparr>) demo_world))))
     = Some [97, 0, 0, 0, 123]
   \<and> unpack_I Little [97, 0, 0, 0] = Inr 97"
proof -
  let ?s = "pong_sock\<lparr>send_plan := [Short 3, Short 0]\<rparr>"
  let ?c = "demo_client\<lparr>socket := Some ?s\<rparr>"
  let ?M = "make_message 1700000000123 (ascii ''PING'') (ascii ''ping'') (ascii ''req_7'') ?c"
  let ?B = "map of_nat (json_dumps ?M) :: byte list"
  let ?s1 = "pong_sock\<lparr>sent := [97, 0, 0, 0], send_plan := [Short 0]\<rparr>"
  let ?s2 = "pong_sock\<lparr>sent := [97, 0, 0, 0, 123], send_plan := []\<rparr>"
  have l: "length (json_dumps ?M) = 97" by (rule length_ping)
  have hd: "take (Suc 0) ?B = [123]"
    unfolding json_dumps_ping by (simp add: ascii_def)
  have p: "pack_I Little (length (json_dumps ?M)) = Inr [97, 0, 0, 0]"
    by (simp add: l pack_I_def le_bytes_def)
  have cn: "connected pong_sock" "sent pong_sock = []"
    by (simp_all add: pong_sock_def)
  have s1: "send [97, 0, 0, 0] ?s = (Inr 4, ?s1)"
    by (simp add: send_def cn)
  have s2: "send ?B ?s1 = (Inr 1, ?s2)"
    by (simp add: send_def cn hd l)
  have f: "send_frame (byte_order pong_host) ?B ?s = (Inr (), ?s2)"
    by (simp add: send_frame_def p s1 s2 pong_host_def)
  note sm = send_ping [OF f, of demo_world]
  have q: "quiet ?s2" "allows 4 (recv_plan ?s2)"
    "inbound ?s2 = le_bytes 83 @ map of_nat (json_dumps pong_reply)"
    by (simp_all add: pong_sock_def quiet_def)
  have r: "fst (send_message pong_host 1700000000123 (ascii ''PING'') (ascii ''ping'')
             (ascii ''req_7'') ?c demo_world) = Some (to_json pong_reply)"
    unfolding sm by (rule receive_pong [OF q])
  have "socket (fst (snd (send_message pong_host 1700000000123 (ascii ''PING'') (ascii ''ping'')
             (ascii ''req_7'') ?c demo_world))) = Some (snd (recv_frame (byte_order pong_host) ?s2))"
    unfolding sm by (rule receive_message_socket) simp
  then have t: "map_option sent (socket (fst (snd (send_message pong_host 1700000000123
             (ascii ''PING'') (ascii ''ping'') (ascii ''req_7'') ?c demo_world))))
           = Some [97, 0, 0, 0, 123]"
    by (simp add: recv_frame_sent)
  have u: "unpack_I Little [97, 0, 0, 0] = Inr 97"
    by (simp add: unpack_I_def)
  from r t u show ?thesis by simp
qed

end
